theory Spec2Isabelle
  imports Main
begin

section \<open>Task manager: data model\<close>

text \<open>
  The program is a browser script. Its state is the module-level variables \<open>tasks\<close> and
  \<open>taskId\<close>, the entry of \<open>localStorage\<close> under the key \<open>tasksData\<close>, and what it shows to
  the user (form errors, alerts, toasts). The model passes this state explicitly.

  Conventions of the embedding.
  \<^item> JavaScript numbers are modelled as \<open>int\<close>: every number the program computes is an
    integer far below \<open>2^53\<close>, where doubles are exact. \<open>Math.round(d / 1000)\<close> on an
    integer \<open>d\<close> is \<open>(d + 500) div 1000\<close> (rounding half up, as \<open>Math.round\<close> does).
  \<^item> \<open>Date.now()\<close> and \<open>new Date()\<close> are one reading \<open>now\<close> of the clock, in milliseconds
    elapsed since the epoch, a natural number.
  \<^item> Strings are lists of 8-bit characters (the Latin-1 part of JavaScript's strings).
  \<^item> A task in memory has the field types that \<open>createTask\<close> gives it. A \<open>Date\<close> is its time
    value, \<open>None\<close> for an invalid date. \<open>null\<close> in \<open>timerEnd\<close> is \<open>None\<close>.
  \<^item> Rendering and the other DOM updates do not touch the state modelled here and are left out;
    the messages shown to the user are recorded in \<open>ui\<close>.
\<close>

record task =
  task_id :: int
  task_text :: string
  completed :: bool
  createdAt :: "int option"
  timerSeconds :: int
  timerRemainingSeconds :: int
  timerEnd :: "int option"
  incomplete :: bool

text \<open>
  A value read from parsed JSON. \<open>JObject\<close> stands for any object or array (always truthy);
  a property that is absent (\<open>undefined\<close>) is \<open>None\<close> of type \<open>json option\<close>.
\<close>

datatype json = JNull | JBool bool | JNum int | JStr string | JObject

text \<open>
  The stored \<open>createdAt\<close>: \<open>NoDate\<close> is an absent, \<open>null\<close> or otherwise falsy value,
  \<open>IsoDate t\<close> the ISO-8601 string of the time value \<open>t\<close> (what \<open>JSON.stringify\<close> writes for a
  valid \<open>Date\<close> and \<open>new Date(string)\<close> reads back), \<open>BadDate\<close> a truthy value that is no date.
\<close>

datatype raw_date = NoDate | IsoDate int | BadDate

text \<open>
  A record of the stored array, as \<open>JSON.parse\<close> returns it. The fields that \<open>loadTasks\<close> coerces
  with \<open>!!\<close> may hold any JSON value; \<open>id\<close> and \<open>text\<close> are an integer and a string; the timer
  fields are integers when present (\<open>None\<close>: absent, for \<open>timerSeconds\<close> and \<open>timerEnd\<close> also
  \<open>null\<close>).
\<close>

record raw_task =
  r_id :: int
  r_text :: string
  r_completed :: "json option"
  r_createdAt :: raw_date
  r_timerSeconds :: "int option"
  r_timerRemainingSeconds :: "int option"
  r_timerEnd :: "int option"
  r_incomplete :: "json option"

text \<open>
  The item under \<open>STORAGE_KEY\<close>: \<open>NoItem\<close> when \<open>getItem\<close> returns \<open>null\<close> or the empty string,
  \<open>Unparseable\<close> when \<open>JSON.parse\<close> throws on it (or it parses to a value on which the
  normalization throws, such as \<open>null\<close>: the same \<open>catch\<close> handles both), \<open>Records rs\<close> when it
  parses to the array \<open>rs\<close> of objects.
\<close>

datatype stored = NoItem | Unparseable | Records "raw_task list"

datatype ui_effect =
    FormError string string
  | ClearError string
  | Alert string
  | Toast string

record app_state =
  tasks :: "task list"
  taskId :: int
  storage :: stored
  ui :: "ui_effect list"

text \<open>What a call reads from its environment: the clock, and whether \<open>setItem\<close> throws.\<close>

record env =
  now :: nat
  setItem_fails :: bool

definition MAX_TASKS :: nat where
  "MAX_TASKS = 100"

definition init_state :: app_state where
  "init_state = \<lparr>tasks = [], taskId = 0, storage = NoItem, ui = []\<rparr>"

section \<open>JavaScript primitives\<close>

text \<open>Truthiness: of a JSON value or \<open>undefined\<close>, of a number, of a number or \<open>null\<close>.\<close>

fun truthy :: "json option \<Rightarrow> bool" where
  "truthy None = False"
| "truthy (Some JNull) = False"
| "truthy (Some (JBool b)) = b"
| "truthy (Some (JNum n)) = (n \<noteq> 0)"
| "truthy (Some (JStr s)) = (s \<noteq> [])"
| "truthy (Some JObject) = True"

definition num_truthy :: "int \<Rightarrow> bool" where
  "num_truthy n = (n \<noteq> 0)"

fun opt_truthy :: "int option \<Rightarrow> bool" where
  "opt_truthy None = False"
| "opt_truthy (Some n) = num_truthy n"

text \<open>\<open>String.prototype.trim\<close> and \<open>toLowerCase\<close> on 8-bit characters.\<close>

definition is_space :: "char \<Rightarrow> bool" where
  "is_space c = (c \<in> set [CHR 0x09, CHR 0x0A, CHR 0x0B, CHR 0x0C, CHR 0x0D, CHR 0x20, CHR 0xA0])"

definition trim :: "string \<Rightarrow> string" where
  "trim s = rev (dropWhile is_space (rev (dropWhile is_space s)))"

definition lower_char :: "char \<Rightarrow> char" where
  "lower_char c =
     (let n = (of_char c :: nat)
      in if (65 \<le> n \<and> n \<le> 90) \<or> (192 \<le> n \<and> n \<le> 222 \<and> n \<noteq> 215)
         then char_of (n + 32) else c)"

definition toLowerCase :: "string \<Rightarrow> string" where
  "toLowerCase s = map lower_char s"

text \<open>\<open>Math.round(d / 1000)\<close> for an integer \<open>d\<close>.\<close>

definition round_div_1000 :: "int \<Rightarrow> int" where
  "round_div_1000 d = (d + 500) div 1000"

text \<open>\<open>Math.max(...xs)\<close> on a list that is not empty (the call is guarded by \<open>length > 0\<close>).\<close>

fun math_max :: "int list \<Rightarrow> int option" where
  "math_max [] = None"
| "math_max (x # xs) = Some (fold max xs x)"

text \<open>
  \<open>tasks.find(t => t.id === id)\<close> is \<open>List.find (by_id id)\<close>. The object it returns is
  mutated in place; the model writes the mutated object back at the position of the first
  match.
\<close>

fun update_first :: "('a \<Rightarrow> bool) \<Rightarrow> 'a \<Rightarrow> 'a list \<Rightarrow> 'a list" where
  "update_first P y [] = []"
| "update_first P y (x # xs) = (if P x then y # xs else x # update_first P y xs)"

definition by_id :: "int \<Rightarrow> task \<Rightarrow> bool" where
  "by_id i t = (task_id t = i)"

definition put_task :: "int \<Rightarrow> task \<Rightarrow> app_state \<Rightarrow> app_state" where
  "put_task i t s = s\<lparr>tasks := update_first (by_id i) t (tasks s)\<rparr>"

section \<open>User interface effects\<close>

definition showFormError :: "string \<Rightarrow> string \<Rightarrow> app_state \<Rightarrow> app_state" where
  "showFormError inputId message s = s\<lparr>ui := ui s @ [FormError inputId message]\<rparr>"

definition clearFormError :: "string \<Rightarrow> app_state \<Rightarrow> app_state" where
  "clearFormError inputId s = s\<lparr>ui := ui s @ [ClearError inputId]\<rparr>"

definition alert :: "string \<Rightarrow> app_state \<Rightarrow> app_state" where
  "alert message s = s\<lparr>ui := ui s @ [Alert message]\<rparr>"

text \<open>\<open>showToast(message)\<close> is recorded as \<open>Toast message\<close>; \<open>toasts_of\<close> reads the toasts back.\<close>

fun toasts_of :: "ui_effect list \<Rightarrow> string list" where
  "toasts_of [] = []"
| "toasts_of (Toast m # es) = m # toasts_of es"
| "toasts_of (e # es) = toasts_of es"

section \<open>Persistence\<close>

text \<open>\<open>JSON.stringify\<close> of one task, read back by \<open>JSON.parse\<close>.\<close>

definition toJSON :: "task \<Rightarrow> raw_task" where
  "toJSON t =
     \<lparr>r_id = task_id t,
      r_text = task_text t,
      r_completed = Some (JBool (completed t)),
      r_createdAt = (case createdAt t of Some d \<Rightarrow> IsoDate d | None \<Rightarrow> NoDate),
      r_timerSeconds = Some (timerSeconds t),
      r_timerRemainingSeconds = Some (timerRemainingSeconds t),
      r_timerEnd = timerEnd t,
      r_incomplete = Some (JBool (incomplete t))\<rparr>"

definition saveTasks :: "env \<Rightarrow> app_state \<Rightarrow> app_state" where
  "saveTasks e s =
     (if setItem_fails e
      then alert ''Failed to save tasks. Storage might be full.'' s
      else s\<lparr>storage := Records (map toJSON (tasks s))\<rparr>)"

text \<open>The body of the \<open>map\<close> in \<open>loadTasks\<close>.\<close>

definition normalize_task :: "nat \<Rightarrow> raw_task \<Rightarrow> task" where
  "normalize_task n t =
     \<lparr>task_id = r_id t,
      task_text = r_text t,
      completed = truthy (r_completed t),
      createdAt = (case r_createdAt t of
                     NoDate \<Rightarrow> Some (int n) | IsoDate d \<Rightarrow> Some d | BadDate \<Rightarrow> None),
      timerSeconds = (case r_timerSeconds t of
                        Some v \<Rightarrow> if num_truthy v then v else 0 | None \<Rightarrow> 0),
      timerRemainingSeconds =
        (case r_timerRemainingSeconds t of
           Some v \<Rightarrow> v
         | None \<Rightarrow> (case r_timerSeconds t of
                      Some v \<Rightarrow> if num_truthy v then v else 0 | None \<Rightarrow> 0)),
      timerEnd = (if opt_truthy (r_timerEnd t) then r_timerEnd t else None),
      incomplete = truthy (r_incomplete t)\<rparr>"

definition loadTasks :: "env \<Rightarrow> app_state \<Rightarrow> app_state" where
  "loadTasks e s =
     (case storage s of
        NoItem \<Rightarrow> s
      | Unparseable \<Rightarrow> s\<lparr>tasks := []\<rparr>
      | Records rs \<Rightarrow>
          (let s1 = s\<lparr>tasks := map (normalize_task (now e)) rs\<rparr>
           in if length (tasks s1) > 0
              then (case math_max (map task_id (tasks s1)) of
                      Some m \<Rightarrow> s1\<lparr>taskId := m\<rparr> | None \<Rightarrow> s1)
              else s1))"

section \<open>Task operations\<close>

definition createTask :: "env \<Rightarrow> string \<Rightarrow> int \<Rightarrow> app_state \<Rightarrow> task \<times> app_state" where
  "createTask e txt secs s =
     (let s1 = s\<lparr>taskId := taskId s + 1\<rparr>
      in (\<lparr>task_id = taskId s1,
           task_text = txt,
           completed = False,
           createdAt = Some (int (now e)),
           timerSeconds = secs,
           timerRemainingSeconds = secs,
           timerEnd = (if secs > 0 then Some (int (now e) + secs * 1000) else None),
           incomplete = False\<rparr>, s1))"

text \<open>
  \<open>addTask\<close> returns a boolean. \<open>timerInput\<close> is \<open>parseInt($('#taskTimer').val(), 10)\<close>, with
  \<open>None\<close> for \<open>NaN\<close>.
\<close>

definition addTask :: "env \<Rightarrow> string \<Rightarrow> int option \<Rightarrow> app_state \<Rightarrow> bool \<times> app_state" where
  "addTask e txt timerInput s =
     (let trimmedText = trim txt
      in if trimmedText = [] then
           (False, showFormError ''taskInput'' ''Task cannot be empty!'' s)
         else if length trimmedText < 3 then
           (False, showFormError ''taskInput'' ''Task must be at least 3 characters!'' s)
         else if length trimmedText > 200 then
           (False, showFormError ''taskInput'' ''Task cannot exceed 200 characters!'' s)
         else if length (tasks s) \<ge> MAX_TASKS then
           (False, alert ''Maximum 100 tasks allowed!'' s)
         else if list_ex (\<lambda>t. toLowerCase (task_text t) = toLowerCase trimmedText) (tasks s) then
           (False, showFormError ''taskInput'' ''Task already exists!'' s)
         else
           (let minutes = (case timerInput of
                             Some m \<Rightarrow> if num_truthy m then m else 0 | None \<Rightarrow> 0);
                seconds = (if minutes > 0 then minutes * 60 else 0);
                (t, s1) = createTask e trimmedText seconds s;
                s2 = s1\<lparr>tasks := tasks s1 @ [t]\<rparr>;
                s3 = saveTasks e s2
            in (True, clearFormError ''taskInput'' s3)))"

definition deleteTask :: "env \<Rightarrow> int \<Rightarrow> app_state \<Rightarrow> app_state" where
  "deleteTask e i s = saveTasks e (s\<lparr>tasks := filter (\<lambda>t. task_id t \<noteq> i) (tasks s)\<rparr>)"

text \<open>
  The value a call evaluates to: \<open>undefined\<close> for a function without \<open>return\<close>, a boolean
  otherwise. \<open>toggleTask\<close> has no \<open>return\<close>, nor have the other mutators below; their value
  is modelled for \<open>toggleTask\<close> only.
\<close>

datatype retval = Undefined | Boolean bool

definition toggleTask :: "env \<Rightarrow> int \<Rightarrow> app_state \<Rightarrow> retval \<times> app_state" where
  "toggleTask e i s =
     (case List.find (by_id i) (tasks s) of
        None \<Rightarrow> (Undefined, s)
      | Some t \<Rightarrow>
          (let t1 = t\<lparr>completed := \<not> completed t\<rparr>;
               t2 = (if completed t1
                     then t1\<lparr>incomplete := False, timerEnd := None, timerRemainingSeconds := 0\<rparr>
                     else t1)
           in (Undefined, saveTasks e (put_task i t2 s))))"

definition clearCompleted :: "env \<Rightarrow> app_state \<Rightarrow> app_state" where
  "clearCompleted e s = saveTasks e (s\<lparr>tasks := filter (\<lambda>t. \<not> completed t) (tasks s)\<rparr>)"

section \<open>Timers\<close>

definition startTimer :: "env \<Rightarrow> int \<Rightarrow> app_state \<Rightarrow> app_state" where
  "startTimer e i s =
     (case List.find (by_id i) (tasks s) of
        None \<Rightarrow> s
      | Some t \<Rightarrow>
          if completed t \<or> incomplete t then s
          else if opt_truthy (timerEnd t) then s
          else
            (let t1 = (if \<not> num_truthy (timerRemainingSeconds t) \<and> num_truthy (timerSeconds t)
                       then t\<lparr>timerRemainingSeconds := timerSeconds t\<rparr> else t)
             in if timerRemainingSeconds t1 > 0
                then saveTasks e
                       (put_task i
                          (t1\<lparr>timerEnd := Some (int (now e) + timerRemainingSeconds t1 * 1000)\<rparr>) s)
                else put_task i t1 s))"

definition pauseTimer :: "env \<Rightarrow> int \<Rightarrow> app_state \<Rightarrow> app_state" where
  "pauseTimer e i s =
     (case List.find (by_id i) (tasks s) of
        None \<Rightarrow> s
      | Some t \<Rightarrow>
          if completed t \<or> incomplete t then s
          else if \<not> opt_truthy (timerEnd t) then s
          else (case timerEnd t of
                  None \<Rightarrow> s
                | Some te \<Rightarrow>
                    (let remaining = max 0 (round_div_1000 (te - int (now e)))
                     in saveTasks e
                          (put_task i
                             (t\<lparr>timerRemainingSeconds := remaining, timerEnd := None\<rparr>) s))))"

definition resetTimer :: "env \<Rightarrow> int \<Rightarrow> app_state \<Rightarrow> app_state" where
  "resetTimer e i s =
     (case List.find (by_id i) (tasks s) of
        None \<Rightarrow> s
      | Some t \<Rightarrow>
          saveTasks e
            (put_task i
               (t\<lparr>timerRemainingSeconds := (if num_truthy (timerSeconds t) then timerSeconds t else 0),
                  timerEnd := None,
                  incomplete := False\<rparr>) s))"

text \<open>
  The loop of \<open>checkTimers\<close> over the tasks, in order: the tasks after the loop, the toasts
  shown, and the flag \<open>changed\<close>.
\<close>

fun checkTimers_loop :: "int \<Rightarrow> task list \<Rightarrow> task list \<times> ui_effect list \<times> bool" where
  "checkTimers_loop n [] = ([], [], False)"
| "checkTimers_loop n (t # ts) =
     (let (ts', toasts, changed) = checkTimers_loop n ts
      in if opt_truthy (timerEnd t) \<and> \<not> completed t \<and> \<not> incomplete t then
           (case timerEnd t of
              Some te \<Rightarrow>
                if n \<ge> te
                then (t\<lparr>incomplete := True, timerEnd := None, timerRemainingSeconds := 0\<rparr> # ts',
                      Toast (''Timer expired: '' @ task_text t) # toasts, True)
                else (t # ts', toasts, changed)
            | None \<Rightarrow> (t # ts', toasts, changed))
         else (t # ts', toasts, changed))"

definition checkTimers :: "env \<Rightarrow> app_state \<Rightarrow> app_state" where
  "checkTimers e s =
     (let (ts, toasts, changed) = checkTimers_loop (int (now e)) (tasks s);
          s1 = s\<lparr>tasks := ts, ui := ui s @ toasts\<rparr>
      in if changed then saveTasks e s1 else s1)"

section \<open>Notions of the specification\<close>

text \<open>
  The validation errors of the specification. The program has no error values: it returns
  \<open>false\<close> after showing a message, and \<open>reported\<close> gives the message of each error.
\<close>

datatype validation_error = Empty | TooShort | TooLong | LimitReached | Duplicate

fun reported :: "validation_error \<Rightarrow> ui_effect" where
  "reported Empty = FormError ''taskInput'' ''Task cannot be empty!''"
| "reported TooShort = FormError ''taskInput'' ''Task must be at least 3 characters!''"
| "reported TooLong = FormError ''taskInput'' ''Task cannot exceed 200 characters!''"
| "reported LimitReached = Alert ''Maximum 100 tasks allowed!''"
| "reported Duplicate = FormError ''taskInput'' ''Task already exists!''"

definition is_duplicate :: "string \<Rightarrow> task list \<Rightarrow> bool" where
  "is_duplicate txt ts = (\<exists>t \<in> set ts. toLowerCase (task_text t) = toLowerCase txt)"

text \<open>The rules of \<open>add\<close> in the order the specification gives them.\<close>

definition first_failing_rule :: "string \<Rightarrow> task list \<Rightarrow> validation_error option" where
  "first_failing_rule rawText ts =
     (let t = trim rawText
      in if t = [] then Some Empty
         else if length t < 3 then Some TooShort
         else if length t > 200 then Some TooLong
         else if length ts \<ge> 100 then Some LimitReached
         else if is_duplicate t ts then Some Duplicate
         else None)"

definition minutes_to_seconds :: "int \<Rightarrow> int" where
  "minutes_to_seconds m = (if m > 0 then m * 60 else 0)"

text \<open>The task that the specification says \<open>add\<close> constructs.\<close>

definition new_task :: "env \<Rightarrow> string \<Rightarrow> int option \<Rightarrow> app_state \<Rightarrow> task" where
  "new_task e txt timerMinutes s =
     (let secs = minutes_to_seconds (case timerMinutes of Some m \<Rightarrow> m | None \<Rightarrow> 0)
      in \<lparr>task_id = taskId s + 1, task_text = trim txt, completed = False,
          createdAt = Some (int (now e)), timerSeconds = secs, timerRemainingSeconds = secs,
          timerEnd = (if secs > 0 then Some (int (now e) + secs * 1000) else None),
          incomplete = False\<rparr>)"

text \<open>No task carries an id above the counter: every id in use was assigned earlier.\<close>

definition ids_bounded :: "app_state \<Rightarrow> bool" where
  "ids_bounded s = (\<forall>t \<in> set (tasks s). task_id t \<le> taskId s)"

text \<open>
  The program tests \<open>timerEnd\<close> by truthiness, so a \<open>timerEnd\<close> of \<open>0\<close> counts as not running.
  Every \<open>timerEnd\<close> the program sets is the clock plus a positive duration, and \<open>loadTasks\<close>
  turns a stored \<open>0\<close> into \<open>null\<close>: in the states the program reaches \<open>timerEnd\<close> is never \<open>0\<close>
  (lemma \<open>reachable_timerEnd_nonzero\<close>).
\<close>

definition timerEnd_nonzero :: "task \<Rightarrow> bool" where
  "timerEnd_nonzero t = (timerEnd t \<noteq> Some 0)"

definition timers_nonzero :: "app_state \<Rightarrow> bool" where
  "timers_nonzero s = (\<forall>t \<in> set (tasks s). timerEnd_nonzero t)"

text \<open>Expiry, in the words of the specification, and the guard of the loop in \<open>checkTimers\<close>.\<close>

definition due :: "int \<Rightarrow> task \<Rightarrow> bool" where
  "due n t = ((case timerEnd t of None \<Rightarrow> False | Some te \<Rightarrow> n \<ge> te)
              \<and> \<not> completed t \<and> \<not> incomplete t)"

definition expire :: "task \<Rightarrow> task" where
  "expire t = t\<lparr>incomplete := True, timerEnd := None, timerRemainingSeconds := 0\<rparr>"

definition expiry_message :: "task \<Rightarrow> string" where
  "expiry_message t = ''Timer expired: '' @ task_text t"

definition fires :: "int \<Rightarrow> task \<Rightarrow> bool" where
  "fires n t = (opt_truthy (timerEnd t) \<and> \<not> completed t \<and> \<not> incomplete t
                \<and> (case timerEnd t of None \<Rightarrow> False | Some te \<Rightarrow> n \<ge> te))"

text \<open>The invariant of completed tasks.\<close>

definition task_inv :: "task \<Rightarrow> bool" where
  "task_inv t =
     (completed t \<longrightarrow> \<not> incomplete t \<and> timerEnd t = None \<and> timerRemainingSeconds t = 0)"

definition state_inv :: "app_state \<Rightarrow> bool" where
  "state_inv s = (\<forall>t \<in> set (tasks s). task_inv t)"

text \<open>What \<open>toggleCompleted\<close> does to the task, in the words of the specification.\<close>

definition toggled :: "task \<Rightarrow> task" where
  "toggled t =
     (if completed t then t\<lparr>completed := False\<rparr>
      else t\<lparr>completed := True, incomplete := False, timerEnd := None,
             timerRemainingSeconds := 0\<rparr>)"

text \<open>
  What \<open>startTimer\<close>, \<open>pauseTimer\<close> and \<open>resetTimer\<close> do to the task they find (the bodies of
  the three functions, without the save).
\<close>

definition start_step :: "nat \<Rightarrow> task \<Rightarrow> task" where
  "start_step n t =
     (if completed t \<or> incomplete t then t
      else if opt_truthy (timerEnd t) then t
      else
        (let t1 = (if \<not> num_truthy (timerRemainingSeconds t) \<and> num_truthy (timerSeconds t)
                   then t\<lparr>timerRemainingSeconds := timerSeconds t\<rparr> else t)
         in if timerRemainingSeconds t1 > 0
            then t1\<lparr>timerEnd := Some (int n + timerRemainingSeconds t1 * 1000)\<rparr>
            else t1))"

definition pause_step :: "nat \<Rightarrow> task \<Rightarrow> task" where
  "pause_step n t =
     (if completed t \<or> incomplete t then t
      else if \<not> opt_truthy (timerEnd t) then t
      else (case timerEnd t of
              None \<Rightarrow> t
            | Some te \<Rightarrow>
                t\<lparr>timerRemainingSeconds := max 0 (round_div_1000 (te - int n)),
                  timerEnd := None\<rparr>))"

definition reset_step :: "task \<Rightarrow> task" where
  "reset_step t =
     t\<lparr>timerRemainingSeconds := (if num_truthy (timerSeconds t) then timerSeconds t else 0),
       timerEnd := None, incomplete := False\<rparr>"

text \<open>
  A timer within its duration \<open>S\<close> at the time \<open>n\<close>: the remaining seconds are between \<open>0\<close> and
  \<open>S\<close>, and a running timer ends at most \<open>S\<close> seconds after \<open>n\<close>.
\<close>

definition bounded_timer :: "int \<Rightarrow> nat \<Rightarrow> task \<Rightarrow> bool" where
  "bounded_timer S n t =
     (timerSeconds t = S \<and> 0 \<le> S \<and> 0 \<le> timerRemainingSeconds t \<and> timerRemainingSeconds t \<le> S \<and>
      (case timerEnd t of None \<Rightarrow> True | Some te \<Rightarrow> te \<le> int n + S * 1000))"

text \<open>Sequences of \<open>start\<close> and \<open>pause\<close>, each on some task id at some reading of the clock.\<close>

datatype timer_op = Start | Pause

fun apply_timer_op :: "timer_op \<times> int \<times> env \<Rightarrow> app_state \<Rightarrow> app_state" where
  "apply_timer_op (Start, i, e) s = startTimer e i s"
| "apply_timer_op (Pause, i, e) s = pauseTimer e i s"

definition run_timer_ops :: "(timer_op \<times> int \<times> env) list \<Rightarrow> app_state \<Rightarrow> app_state" where
  "run_timer_ops ops s = fold apply_timer_op ops s"

definition op_time :: "timer_op \<times> int \<times> env \<Rightarrow> nat" where
  "op_time x = now (snd (snd x))"

text \<open>
  The operations of a session after the collection was loaded, the ids that an operation
  assigns (the ids of the tasks that \<open>addTask\<close> appends; no other operation creates a task),
  and a sequence of operations with the ids it assigns, in order, and the state it ends in.
\<close>

datatype action =
    DoAdd env string "int option"
  | DoDelete env int
  | DoToggle env int
  | DoClear env
  | DoStart env int
  | DoPause env int
  | DoReset env int
  | DoTick env

fun perform :: "action \<Rightarrow> app_state \<Rightarrow> app_state" where
  "perform (DoAdd e txt timerInput) s = snd (addTask e txt timerInput s)"
| "perform (DoDelete e i) s = deleteTask e i s"
| "perform (DoToggle e i) s = snd (toggleTask e i s)"
| "perform (DoClear e) s = clearCompleted e s"
| "perform (DoStart e i) s = startTimer e i s"
| "perform (DoPause e i) s = pauseTimer e i s"
| "perform (DoReset e i) s = resetTimer e i s"
| "perform (DoTick e) s = checkTimers e s"

fun issued :: "action \<Rightarrow> app_state \<Rightarrow> int list" where
  "issued (DoAdd e txt timerInput) s =
     map task_id (drop (length (tasks s)) (tasks (snd (addTask e txt timerInput s))))"
| "issued a s = []"

fun session :: "action list \<Rightarrow> app_state \<Rightarrow> int list \<times> app_state" where
  "session [] s = ([], s)"
| "session (a # rest) s =
     (let (ids, s') = session rest (perform a s) in (issued a s @ ids, s'))"

text \<open>
  The states of a session: the page starts with no tasks, the counter at \<open>0\<close> and whatever the
  store holds, and then runs the operations.
\<close>

inductive reachable :: "app_state \<Rightarrow> bool" where
  at_start: "reachable (init_state\<lparr>storage := st\<rparr>)"
| after_load: "reachable s \<Longrightarrow> reachable (loadTasks e s)"
| after_add: "reachable s \<Longrightarrow> reachable (snd (addTask e txt timerInput s))"
| after_delete: "reachable s \<Longrightarrow> reachable (deleteTask e i s)"
| after_toggle: "reachable s \<Longrightarrow> reachable (snd (toggleTask e i s))"
| after_clear: "reachable s \<Longrightarrow> reachable (clearCompleted e s)"
| after_start: "reachable s \<Longrightarrow> reachable (startTimer e i s)"
| after_pause: "reachable s \<Longrightarrow> reachable (pauseTimer e i s)"
| after_reset: "reachable s \<Longrightarrow> reachable (resetTimer e i s)"
| after_tick: "reachable s \<Longrightarrow> reachable (checkTimers e s)"

section \<open>Example states\<close>

text \<open>
  A clock reading with a store that accepts writes; the task ``Buy milk'' added at time
  \<open>1000\<close> with a one-minute timer; a collection holding it; a collection at the limit of
  \<open>100\<close> tasks; a completed task with a one-minute timer; and stored records of older or
  foreign origin.
\<close>

definition env_at :: "nat \<Rightarrow> env" where
  "env_at n = \<lparr>now = n, setItem_fails = False\<rparr>"

definition milk :: task where
  "milk = \<lparr>task_id = 1, task_text = ''Buy milk'', completed = False, createdAt = Some 1000,
           timerSeconds = 60, timerRemainingSeconds = 60, timerEnd = Some 61000,
           incomplete = False\<rparr>"

definition milk_state :: app_state where
  "milk_state = \<lparr>tasks = [milk], taskId = 1, storage = NoItem, ui = []\<rparr>"

definition full_state :: app_state where
  "full_state = \<lparr>tasks = replicate 100 milk, taskId = 100, storage = NoItem, ui = []\<rparr>"

definition done_task :: task where
  "done_task = \<lparr>task_id = 1, task_text = ''Buy milk'', completed = True, createdAt = Some 1000,
                timerSeconds = 60, timerRemainingSeconds = 0, timerEnd = None,
                incomplete = False\<rparr>"

definition done_state :: app_state where
  "done_state = \<lparr>tasks = [done_task], taskId = 1, storage = NoItem, ui = []\<rparr>"

definition legacy_record :: raw_task where
  "legacy_record = \<lparr>r_id = 7, r_text = ''ab'', r_completed = None, r_createdAt = NoDate,
                    r_timerSeconds = None, r_timerRemainingSeconds = None, r_timerEnd = None,
                    r_incomplete = None\<rparr>"

definition odd_record :: raw_task where
  "odd_record = \<lparr>r_id = 3, r_text = '' AB '', r_completed = Some (JStr ''false''),
                 r_createdAt = IsoDate 1000, r_timerSeconds = Some 60,
                 r_timerRemainingSeconds = None, r_timerEnd = Some 0,
                 r_incomplete = None\<rparr>"

definition stored_state :: "raw_task list \<Rightarrow> app_state" where
  "stored_state rs = \<lparr>tasks = [], taskId = 0, storage = Records rs, ui = []\<rparr>"

text \<open>
  A session that adds two tasks and deletes the second, the state it ends in, and the page
  opened again on the store it left.
\<close>

definition aaa_task :: task where
  "aaa_task = \<lparr>task_id = 1, task_text = ''aaa'', completed = False, createdAt = Some 1000,
               timerSeconds = 0, timerRemainingSeconds = 0, timerEnd = None,
               incomplete = False\<rparr>"

definition earlier_actions :: "action list" where
  "earlier_actions =
     [DoAdd (env_at 1000) ''aaa'' None, DoAdd (env_at 2000) ''bbb'' None,
      DoDelete (env_at 3000) 2]"

definition earlier_state :: app_state where
  "earlier_state = snd (session earlier_actions init_state)"

definition reopened_page :: app_state where
  "reopened_page = loadTasks (env_at 4000) (init_state\<lparr>storage := storage earlier_state\<rparr>)"

section \<open>Basic facts\<close>

lemma saveTasks_tasks [simp]: "tasks (saveTasks e s) = tasks s"
  by (simp add: saveTasks_def alert_def)

lemma saveTasks_taskId [simp]: "taskId (saveTasks e s) = taskId s"
  by (simp add: saveTasks_def alert_def)

lemma saveTasks_storage:
  "storage (saveTasks e s) = (if setItem_fails e then storage s else Records (map toJSON (tasks s)))"
  by (simp add: saveTasks_def alert_def)

lemma toasts_of_append [simp]: "toasts_of (xs @ ys) = toasts_of xs @ toasts_of ys"
  by (induction xs rule: toasts_of.induct) simp_all

lemma toasts_of_map_Toast [simp]: "toasts_of (map (\<lambda>t. Toast (f t)) ts) = map f ts"
  by (induction ts) simp_all

lemma saveTasks_toasts [simp]: "toasts_of (ui (saveTasks e s)) = toasts_of (ui s)"
  by (simp add: saveTasks_def alert_def)

lemma put_task_simps [simp]:
  "tasks (put_task i t s) = update_first (by_id i) t (tasks s)"
  "taskId (put_task i t s) = taskId s"
  "ui (put_task i t s) = ui s"
  "storage (put_task i t s) = storage s"
  by (simp_all add: put_task_def)

lemma length_update_first [simp]: "length (update_first P y xs) = length xs"
  by (induction xs) simp_all

lemma find_update_first:
  "List.find P xs = Some x \<Longrightarrow> P y \<Longrightarrow> List.find P (update_first P y xs) = Some y"
  by (induction xs) (simp_all split: if_splits)

lemma find_Some_props: "List.find P xs = Some x \<Longrightarrow> P x \<and> x \<in> set xs"
  by (induction xs) (auto split: if_splits)

lemma set_update_first: "set (update_first P y xs) \<subseteq> insert y (set xs)"
  by (induction xs) auto

lemma update_first_nth:
  "k < length xs \<Longrightarrow>
     update_first P y xs ! k = xs ! k \<or>
     (update_first P y xs ! k = y \<and> List.find P xs = Some (xs ! k))"
proof (induction xs arbitrary: k)
  case Nil
  then show ?case by simp
next
  case (Cons x xs)
  then show ?case by (cases k) auto
qed

lemma find_map_preserving:
  "(\<And>x. P (f x) = P x) \<Longrightarrow> List.find P (map f xs) = map_option f (List.find P xs)"
  by (induction xs) simp_all


lemma update_first_same: "List.find P xs = Some x \<Longrightarrow> update_first P x xs = xs"
  by (induction xs) (auto split: if_splits)

lemma pointwise_update_first:
  assumes "\<forall>x \<in> set xs. Q x" and "Q y"
  shows "\<forall>x \<in> set (update_first P y xs). Q x"
  using assms set_update_first[of P y xs] by auto

lemma pointwise_found_update:
  assumes all: "\<forall>x \<in> set xs. Q x" and step: "\<And>x. Q x \<Longrightarrow> Q (f x)"
  shows "\<forall>x \<in> set (case List.find P xs of None \<Rightarrow> xs | Some t \<Rightarrow> update_first P (f t) xs). Q x"
proof (cases "List.find P xs")
  case None
  then show ?thesis using all by simp
next
  case (Some t)
  then have "Q t" using all find_Some_props by fastforce
  then show ?thesis using Some pointwise_update_first[OF all step] by simp
qed

lemma nth_found_update:
  assumes "k < length xs" and "Q (xs ! k)" and "\<And>x. Q x \<Longrightarrow> Q (f x)"
  shows "Q ((case List.find P xs of None \<Rightarrow> xs | Some t \<Rightarrow> update_first P (f t) xs) ! k)"
proof (cases "List.find P xs")
  case None
  then show ?thesis using assms(2) by simp
next
  case (Some t)
  from update_first_nth[OF assms(1), of P "f t"] show ?thesis
  proof
    assume "update_first P (f t) xs ! k = xs ! k"
    then show ?thesis using Some assms(2) by simp
  next
    assume a: "update_first P (f t) xs ! k = f t \<and> List.find P xs = Some (xs ! k)"
    then have "t = xs ! k" using Some by simp
    then have "Q (f t)" using assms(2,3) by simp
    then show ?thesis using Some a by simp
  qed
qed

lemma length_found_update [simp]:
  "length (case List.find P xs of None \<Rightarrow> xs | Some t \<Rightarrow> update_first P (f t) xs) = length xs"
  by (simp split: option.splits)

section \<open>Adding a task\<close>

lemma addTask_rejected:
  "first_failing_rule txt (tasks s) = Some err \<Longrightarrow>
   addTask e txt tin s = (False, s\<lparr>ui := ui s @ [reported err]\<rparr>)"
  by (auto simp: addTask_def first_failing_rule_def is_duplicate_def list_ex_iff MAX_TASKS_def
        showFormError_def alert_def Let_def split: if_splits)

lemma addTask_accepted:
  assumes "first_failing_rule txt (tasks s) = None"
  shows "addTask e txt tin s =
     (True, clearFormError ''taskInput''
        (saveTasks e (s\<lparr>taskId := taskId s + 1, tasks := tasks s @ [new_task e txt tin s]\<rparr>)))"
proof -
  have c: "trim txt \<noteq> []" "\<not> length (trim txt) < 3" "\<not> length (trim txt) > 200"
    "\<not> length (tasks s) \<ge> MAX_TASKS"
    "\<not> list_ex (\<lambda>t. toLowerCase (task_text t) = toLowerCase (trim txt)) (tasks s)"
    using assms
    by (auto simp: first_failing_rule_def is_duplicate_def list_ex_iff MAX_TASKS_def Let_def
          split: if_splits)
  have secs: "(case tin of Some m \<Rightarrow> if num_truthy m then m else 0 | None \<Rightarrow> 0)
              = (case tin of Some m \<Rightarrow> m | None \<Rightarrow> 0)"
    by (simp add: num_truthy_def split: option.splits)
  show ?thesis
    using c unfolding addTask_def secs
    by (simp add: Let_def createTask_def new_task_def minutes_to_seconds_def)
qed

lemma addTask_tasks:
  "tasks (snd (addTask e txt tin s)) =
     (if first_failing_rule txt (tasks s) = None then tasks s @ [new_task e txt tin s]
      else tasks s)"
  by (cases "first_failing_rule txt (tasks s)")
     (simp_all add: addTask_rejected addTask_accepted clearFormError_def)

lemma addTask_taskId:
  "taskId (snd (addTask e txt tin s)) =
     (if first_failing_rule txt (tasks s) = None then taskId s + 1 else taskId s)"
  by (cases "first_failing_rule txt (tasks s)")
     (simp_all add: addTask_rejected addTask_accepted clearFormError_def)

lemma new_task_fields [simp]:
  "task_id (new_task e txt tin s) = taskId s + 1"
  "completed (new_task e txt tin s) = False"
  "incomplete (new_task e txt tin s) = False"
  "task_text (new_task e txt tin s) = trim txt"
  by (simp_all add: new_task_def Let_def)

lemma added_iff: "fst (addTask e txt tin s) = (first_failing_rule txt (tasks s) = None)"
  by (cases "first_failing_rule txt (tasks s)") (simp_all add: addTask_rejected addTask_accepted)

lemma add_milk:
  "addTask (env_at 1000) ''  Buy milk '' (Some 1) init_state =
     (True, \<lparr>tasks = [milk], taskId = 1, storage = Records [toJSON milk],
             ui = [ClearError ''taskInput'']\<rparr>)"
proof -
  have a: "first_failing_rule ''  Buy milk '' (tasks init_state) = None" by code_simp
  have nt: "new_task (env_at 1000) ''  Buy milk '' (Some 1) init_state = milk" by code_simp
  show ?thesis
    unfolding addTask_accepted[OF a] nt
    by (simp add: init_state_def clearFormError_def saveTasks_def env_at_def)
qed

text \<open>
  Claim C2. \<open>addTask\<close> trims its input and checks, in this order: empty text, fewer than 3
  characters, more than 200 characters, a collection of 100 tasks or more, a
  case-insensitive duplicate of an existing text. The first rule that fails decides the
  message shown (\<open>reported\<close> gives the message of each error) and the call returns \<open>false\<close>;
  the tasks, the id counter and the store are then unchanged. The call returns \<open>false\<close> only
  when one of the rules fails.
\<close>

theorem addTask_validation_order:
  "(\<forall>err. first_failing_rule txt (tasks s) = Some err \<longrightarrow>
      fst (addTask e txt timerInput s) = False \<and>
      ui (snd (addTask e txt timerInput s)) = ui s @ [reported err] \<and>
      tasks (snd (addTask e txt timerInput s)) = tasks s \<and>
      taskId (snd (addTask e txt timerInput s)) = taskId s \<and>
      storage (snd (addTask e txt timerInput s)) = storage s) \<and>
   (fst (addTask e txt timerInput s) = False \<longrightarrow> first_failing_rule txt (tasks s) \<noteq> None)"
  by (cases "first_failing_rule txt (tasks s)")
     (simp_all add: addTask_rejected addTask_accepted)

theorem addTask_validation_order_witness:
  "addTask (env_at 5) [] (Some 1) milk_state = (False, milk_state\<lparr>ui := [reported Empty]\<rparr>) \<and>
   addTask (env_at 5) ''  ab  '' (Some 1) milk_state
     = (False, milk_state\<lparr>ui := [reported TooShort]\<rparr>) \<and>
   addTask (env_at 5) (replicate 201 CHR ''a'') (Some 1) milk_state
     = (False, milk_state\<lparr>ui := [reported TooLong]\<rparr>) \<and>
   addTask (env_at 5) '' BUY MILK'' (Some 1) milk_state
     = (False, milk_state\<lparr>ui := [reported Duplicate]\<rparr>) \<and>
   addTask (env_at 5) ''Buy milk'' (Some 1) full_state
     = (False, full_state\<lparr>ui := [reported LimitReached]\<rparr>) \<and>
   addTask (env_at 5) ''ab'' (Some 1) full_state
     = (False, full_state\<lparr>ui := [reported TooShort]\<rparr>)"
proof -
  have r1: "first_failing_rule [] (tasks milk_state) = Some Empty" by code_simp
  have r2: "first_failing_rule ''  ab  '' (tasks milk_state) = Some TooShort" by code_simp
  have r3: "first_failing_rule (replicate 201 CHR ''a'') (tasks milk_state) = Some TooLong"
    by code_simp
  have r4: "first_failing_rule '' BUY MILK'' (tasks milk_state) = Some Duplicate" by code_simp
  have r5: "first_failing_rule ''Buy milk'' (tasks full_state) = Some LimitReached" by code_simp
  have r6: "first_failing_rule ''ab'' (tasks full_state) = Some TooShort" by code_simp
  have u: "ui milk_state = []" "ui full_state = []" by (simp_all add: milk_state_def full_state_def)
  have eqI: "p = (False, s\<lparr>ui := [x]\<rparr>)"
    if "fst p = False \<and> ui (snd p) = ui s @ [x] \<and> tasks (snd p) = tasks s \<and>
        taskId (snd p) = taskId s \<and> storage (snd p) = storage s" and "ui s = []"
    for p :: "bool \<times> app_state" and s x
    using that by (cases p) auto
  note v = addTask_validation_order[THEN conjunct1, rule_format]
  show ?thesis
    using eqI[OF v[OF r1, of "env_at 5" "Some 1"] u(1)]
      eqI[OF v[OF r2, of "env_at 5" "Some 1"] u(1)]
      eqI[OF v[OF r3, of "env_at 5" "Some 1"] u(1)]
      eqI[OF v[OF r4, of "env_at 5" "Some 1"] u(1)]
      eqI[OF v[OF r5, of "env_at 5" "Some 1"] u(2)]
      eqI[OF v[OF r6, of "env_at 5" "Some 1"] u(2)]
    by blast
qed

lemma valid_text_accepted:
  assumes "3 \<le> length (trim txt)" and "length (trim txt) \<le> 200"
    and "\<not> is_duplicate (trim txt) (tasks s)" and "length (tasks s) < 100"
  shows "first_failing_rule txt (tasks s) = None"
  using assms by (auto simp: first_failing_rule_def Let_def)

section \<open>Loading\<close>

lemma fold_max_eq_Max: "fold max xs (x::int) = Max (set (x # xs))"
  using Max.set_eq_fold[of x xs] by simp

lemma loadTasks_Records:
  "storage s = Records rs \<Longrightarrow>
   loadTasks e s =
     (if rs = [] then s\<lparr>tasks := []\<rparr>
      else s\<lparr>tasks := map (normalize_task (now e)) rs, taskId := Max (set (map r_id rs))\<rparr>)"
proof (cases rs)
  case Nil
  assume "storage s = Records rs"
  with Nil show ?thesis by (simp add: loadTasks_def)
next
  case (Cons r rs')
  assume st: "storage s = Records rs"
  have ids: "map (task_id \<circ> normalize_task (now e)) rs' = map r_id rs'"
    by (simp add: normalize_task_def)
  have "fold max (map (task_id \<circ> normalize_task (now e)) rs') (r_id r) = Max (set (map r_id (r # rs')))"
    unfolding ids by (simp add: fold_max_eq_Max)
  with Cons st show ?thesis
    by (simp add: loadTasks_def Let_def normalize_task_def)
qed

text \<open>
  Claim C10. \<open>loadTasks\<close> neither validates nor trims: the texts of the loaded tasks are the
  stored texts, in order, whatever they are. The example loads an empty text, a text of two
  characters, one of 201 characters, two texts that differ only in case and a padded text,
  each of which \<open>addTask\<close> rejects or would trim.
\<close>

theorem loadTasks_text_verbatim:
  "storage s = Records rs \<Longrightarrow> map task_text (tasks (loadTasks e s)) = map r_text rs"
  by (simp add: loadTasks_Records normalize_task_def comp_def)

theorem loadTasks_text_verbatim_witness:
  "storage (stored_state
      [legacy_record\<lparr>r_text := []\<rparr>, legacy_record, 
       legacy_record\<lparr>r_text := replicate 201 CHR ''x''\<rparr>,
       legacy_record\<lparr>r_text := ''Buy milk''\<rparr>, legacy_record\<lparr>r_text := ''BUY MILK''\<rparr>,
       odd_record]) =
    Records
      [legacy_record\<lparr>r_text := []\<rparr>, legacy_record, 
       legacy_record\<lparr>r_text := replicate 201 CHR ''x''\<rparr>,
       legacy_record\<lparr>r_text := ''Buy milk''\<rparr>, legacy_record\<lparr>r_text := ''BUY MILK''\<rparr>,
       odd_record] \<and>
   map task_text (tasks (loadTasks (env_at 5000) (stored_state
      [legacy_record\<lparr>r_text := []\<rparr>, legacy_record, 
       legacy_record\<lparr>r_text := replicate 201 CHR ''x''\<rparr>,
       legacy_record\<lparr>r_text := ''Buy milk''\<rparr>, legacy_record\<lparr>r_text := ''BUY MILK''\<rparr>,
       odd_record]))) =
     [[], ''ab'', replicate 201 CHR ''x'', ''Buy milk'', ''BUY MILK'', '' AB ''] \<and>
   first_failing_rule [] [] = Some Empty \<and>
   first_failing_rule ''ab'' [] = Some TooShort \<and>
   first_failing_rule (replicate 201 CHR ''x'') [] = Some TooLong \<and>
   first_failing_rule ''BUY MILK'' [milk] = Some Duplicate \<and>
   trim '' AB '' = ''AB''"
proof -
  let ?rs = "[legacy_record\<lparr>r_text := []\<rparr>, legacy_record, 
       legacy_record\<lparr>r_text := replicate 201 CHR ''x''\<rparr>,
       legacy_record\<lparr>r_text := ''Buy milk''\<rparr>, legacy_record\<lparr>r_text := ''BUY MILK''\<rparr>,
       odd_record]"
  have st: "storage (stored_state ?rs) = Records ?rs" by (simp add: stored_state_def)
  have "map task_text (tasks (loadTasks (env_at 5000) (stored_state ?rs))) =
     [[], ''ab'', replicate 201 CHR ''x'', ''Buy milk'', ''BUY MILK'', '' AB '']"
    using loadTasks_text_verbatim[OF st, of "env_at 5000"]
    by (simp add: legacy_record_def odd_record_def)
  moreover have "first_failing_rule [] [] = Some Empty" by code_simp
  moreover have "first_failing_rule ''ab'' [] = Some TooShort" by code_simp
  moreover have "first_failing_rule (replicate 201 CHR ''x'') [] = Some TooLong" by code_simp
  moreover have "first_failing_rule ''BUY MILK'' [milk] = Some Duplicate" by code_simp
  moreover have "trim '' AB '' = ''AB''" by code_simp
  ultimately show ?thesis using st by blast
qed

text \<open>
  Claim C8, as stated, fails: \<open>completed\<close> is coerced with \<open>!!\<close>, so a stored value that is no
  boolean becomes \<open>true\<close> whenever it is truthy. The record \<open>odd_record\<close> stores the string
  \<open>"false"\<close> and is loaded as completed.
\<close>

theorem loadTasks_invalid_completed_counterexample:
  "r_completed odd_record = Some (JStr ''false'') \<and>
   map completed (tasks (loadTasks (env_at 5000) (stored_state [odd_record]))) = [True]"
  by code_simp

text \<open>
  Claim C8, amended. \<open>loadTasks\<close> normalizes every record of the stored array: an absent
  \<open>timerSeconds\<close> becomes 0, an absent \<open>timerRemainingSeconds\<close> falls back to the normalized
  \<open>timerSeconds\<close>, \<open>incomplete\<close> and \<open>completed\<close> are coerced by truthiness (absent, \<open>null\<close>, \<open>false\<close>,
  \<open>0\<close> and the empty string give \<open>false\<close>, every other value gives \<open>true\<close>), a zero \<open>timerEnd\<close>
  becomes \<open>null\<close>, an absent \<open>createdAt\<close> becomes now. The counter becomes the greatest stored
  id when the array is not empty and keeps its value (0 at start-up) when it is empty. When
  the item does not parse the collection becomes empty and the counter keeps its value; when
  there is no item nothing changes. No branch raises an error.
\<close>

theorem loadTasks_normalizes:
  "(storage s = NoItem \<longrightarrow> loadTasks e s = s) \<and>
   (storage s = Unparseable \<longrightarrow> tasks (loadTasks e s) = [] \<and> taskId (loadTasks e s) = taskId s) \<and>
   (\<forall>rs. storage s = Records rs \<longrightarrow>
      tasks (loadTasks e s) = map (normalize_task (now e)) rs \<and>
      taskId (loadTasks e s) = (if rs = [] then taskId s else Max (set (map r_id rs))) \<and>
      (\<forall>r \<in> set rs.
         task_id (normalize_task (now e) r) = r_id r \<and>
         task_text (normalize_task (now e) r) = r_text r \<and>
         completed (normalize_task (now e) r) = truthy (r_completed r) \<and>
         (r_completed r = None \<longrightarrow> \<not> completed (normalize_task (now e) r)) \<and>
         incomplete (normalize_task (now e) r) = truthy (r_incomplete r) \<and>
         (r_incomplete r = None \<longrightarrow> \<not> incomplete (normalize_task (now e) r)) \<and>
         timerSeconds (normalize_task (now e) r) = (case r_timerSeconds r of None \<Rightarrow> 0 | Some v \<Rightarrow> v) \<and>
         timerRemainingSeconds (normalize_task (now e) r) =
           (case r_timerRemainingSeconds r of
              None \<Rightarrow> timerSeconds (normalize_task (now e) r) | Some v \<Rightarrow> v) \<and>
         timerEnd (normalize_task (now e) r) = (if r_timerEnd r = Some 0 then None else r_timerEnd r) \<and>
         (r_createdAt r = NoDate \<longrightarrow> createdAt (normalize_task (now e) r) = Some (int (now e)))))"
proof (intro conjI allI impI ballI)
  show "loadTasks e s = s" if "storage s = NoItem"
    using that by (simp add: loadTasks_def)
  show "tasks (loadTasks e s) = []" if "storage s = Unparseable"
    using that by (simp add: loadTasks_def)
  show "taskId (loadTasks e s) = taskId s" if "storage s = Unparseable"
    using that by (simp add: loadTasks_def)
next
  fix rs assume st: "storage s = Records rs"
  show "tasks (loadTasks e s) = map (normalize_task (now e)) rs"
    by (simp add: loadTasks_Records[OF st])
  show "taskId (loadTasks e s) = (if rs = [] then taskId s else Max (set (map r_id rs)))"
    by (simp add: loadTasks_Records[OF st])
next
  fix r
  show "task_id (normalize_task (now e) r) = r_id r" by (simp add: normalize_task_def)
  show "task_text (normalize_task (now e) r) = r_text r" by (simp add: normalize_task_def)
  show "completed (normalize_task (now e) r) = truthy (r_completed r)" by (simp add: normalize_task_def)
  show "\<not> completed (normalize_task (now e) r)" if "r_completed r = None"
    using that by (simp add: normalize_task_def)
  show "incomplete (normalize_task (now e) r) = truthy (r_incomplete r)" by (simp add: normalize_task_def)
  show "\<not> incomplete (normalize_task (now e) r)" if "r_incomplete r = None"
    using that by (simp add: normalize_task_def)
  show "timerSeconds (normalize_task (now e) r) = (case r_timerSeconds r of None \<Rightarrow> 0 | Some v \<Rightarrow> v)"
    by (simp add: normalize_task_def num_truthy_def split: option.splits)
  show "timerRemainingSeconds (normalize_task (now e) r) =
           (case r_timerRemainingSeconds r of
              None \<Rightarrow> timerSeconds (normalize_task (now e) r) | Some v \<Rightarrow> v)"
    by (simp add: normalize_task_def split: option.splits)
  show "timerEnd (normalize_task (now e) r) = (if r_timerEnd r = Some 0 then None else r_timerEnd r)"
    by (cases "r_timerEnd r") (simp_all add: normalize_task_def num_truthy_def)
  show "createdAt (normalize_task (now e) r) = Some (int (now e))" if "r_createdAt r = NoDate"
    using that by (simp add: normalize_task_def)
qed

theorem loadTasks_normalizes_witness:
  "storage (stored_state [legacy_record, odd_record]) = Records [legacy_record, odd_record] \<and>
   loadTasks (env_at 5000) (stored_state [legacy_record, odd_record]) =
     \<lparr>tasks =
        [\<lparr>task_id = 7, task_text = ''ab'', completed = False, createdAt = Some 5000,
          timerSeconds = 0, timerRemainingSeconds = 0, timerEnd = None, incomplete = False\<rparr>,
         \<lparr>task_id = 3, task_text = '' AB '', completed = True, createdAt = Some 1000,
          timerSeconds = 60, timerRemainingSeconds = 60, timerEnd = None, incomplete = False\<rparr>],
      taskId = 7, storage = Records [legacy_record, odd_record], ui = []\<rparr> \<and>
   storage (stored_state []) = Records [] \<and>
   taskId (loadTasks (env_at 5000) (stored_state [])) = 0 \<and>
   storage (milk_state\<lparr>storage := Unparseable\<rparr>) = Unparseable \<and>
   tasks (loadTasks (env_at 5000) (milk_state\<lparr>storage := Unparseable\<rparr>)) = [] \<and>
   storage milk_state = NoItem \<and>
   loadTasks (env_at 5000) milk_state = milk_state"
proof -
  let ?s = "stored_state [legacy_record, odd_record]"
  have st: "storage ?s = Records [legacy_record, odd_record]" by (simp add: stored_state_def)
  have st0: "storage (stored_state []) = Records []" by (simp add: stored_state_def)
  have stu: "storage (milk_state\<lparr>storage := Unparseable\<rparr>) = Unparseable" by simp
  have stn: "storage milk_state = NoItem" by (simp add: milk_state_def)
  note w = loadTasks_normalizes[of ?s "env_at 5000"]
  have t: "tasks (loadTasks (env_at 5000) ?s) =
             map (normalize_task (now (env_at 5000))) [legacy_record, odd_record]"
    and i: "taskId (loadTasks (env_at 5000) ?s) = Max (set (map r_id [legacy_record, odd_record]))"
    using w st by auto
  have m: "Max (set (map r_id [legacy_record, odd_record])) = 7"
    by (simp add: legacy_record_def odd_record_def)
  have rest: "storage (loadTasks (env_at 5000) ?s) = Records [legacy_record, odd_record]"
    "ui (loadTasks (env_at 5000) ?s) = []"
    unfolding loadTasks_Records[OF st] by (simp_all add: stored_state_def)
  have a: "loadTasks (env_at 5000) ?s =
     \<lparr>tasks =
        [\<lparr>task_id = 7, task_text = ''ab'', completed = False, createdAt = Some 5000,
          timerSeconds = 0, timerRemainingSeconds = 0, timerEnd = None, incomplete = False\<rparr>,
         \<lparr>task_id = 3, task_text = '' AB '', completed = True, createdAt = Some 1000,
          timerSeconds = 60, timerRemainingSeconds = 60, timerEnd = None, incomplete = False\<rparr>],
      taskId = 7, storage = Records [legacy_record, odd_record], ui = []\<rparr>"
    using t i rest unfolding m
    by (cases "loadTasks (env_at 5000) ?s")
       (simp add: normalize_task_def legacy_record_def odd_record_def env_at_def num_truthy_def)
  have b: "taskId (loadTasks (env_at 5000) (stored_state [])) = 0"
    using loadTasks_normalizes[of "stored_state []" "env_at 5000"] st0
    by (simp add: stored_state_def)
  have c: "tasks (loadTasks (env_at 5000) (milk_state\<lparr>storage := Unparseable\<rparr>)) = []"
    using loadTasks_normalizes[of "milk_state\<lparr>storage := Unparseable\<rparr>" "env_at 5000"] stu
    by blast
  have d: "loadTasks (env_at 5000) milk_state = milk_state"
    using loadTasks_normalizes[of milk_state "env_at 5000"] stn by blast
  from st a st0 b stu c stn d show ?thesis by blast
qed

section \<open>Saving and loading again\<close>

lemma normalize_toJSON_fields:
  "task_id (normalize_task n (toJSON t)) = task_id t"
  "task_text (normalize_task n (toJSON t)) = task_text t"
  "completed (normalize_task n (toJSON t)) = completed t"
  "timerSeconds (normalize_task n (toJSON t)) = timerSeconds t"
  "timerRemainingSeconds (normalize_task n (toJSON t)) = timerRemainingSeconds t"
  "incomplete (normalize_task n (toJSON t)) = incomplete t"
  "timerEnd_nonzero t \<Longrightarrow> timerEnd (normalize_task n (toJSON t)) = timerEnd t"
  "createdAt t \<noteq> None \<Longrightarrow> createdAt (normalize_task n (toJSON t)) = createdAt t"
  by (cases "timerEnd t"; cases "createdAt t";
      simp add: normalize_task_def toJSON_def num_truthy_def timerEnd_nonzero_def)+

lemma normalize_toJSON_id:
  "timerEnd_nonzero t \<Longrightarrow> createdAt t \<noteq> None \<Longrightarrow> normalize_task n (toJSON t) = t"
  by (cases "timerEnd t"; cases t)
     (auto simp: normalize_task_def toJSON_def num_truthy_def timerEnd_nonzero_def)

text \<open>
  Claim C3. When the write succeeds, \<open>saveTasks\<close> followed by \<open>loadTasks\<close> gives the
  normalization of the saved collection, and that has the same ids, texts, completed flags,
  \<open>timerSeconds\<close>, \<open>timerRemainingSeconds\<close>, \<open>timerEnd\<close> and \<open>incomplete\<close> flags, task by task in
  the same order; it is the saved collection itself when every creation date is valid. The
  load runs in any state \<open>s'\<close> whose store is the one that the save wrote, whatever its tasks
  and counter are (a page opened afterwards, for one): the collection comes back from the
  store alone. The saved collection is one whose timers do not end at the timestamp 0, as in
  every reachable state (lemma \<open>reachable_timerEnd_nonzero\<close>): the program reads a \<open>timerEnd\<close>
  of 0 as \<open>null\<close>.
\<close>

theorem save_load_roundtrip:
  assumes "\<not> setItem_fails e" and "timers_nonzero s"
    and "storage s' = storage (saveTasks e s)"
  shows "storage (saveTasks e s) = Records (map toJSON (tasks s)) \<and>
         tasks (loadTasks e' s') = map (normalize_task (now e')) (map toJSON (tasks s)) \<and>
         map task_id (tasks (loadTasks e' s')) = map task_id (tasks s) \<and>
         map task_text (tasks (loadTasks e' s')) = map task_text (tasks s) \<and>
         map completed (tasks (loadTasks e' s')) = map completed (tasks s) \<and>
         map timerSeconds (tasks (loadTasks e' s')) = map timerSeconds (tasks s) \<and>
         map timerRemainingSeconds (tasks (loadTasks e' s')) =
           map timerRemainingSeconds (tasks s) \<and>
         map timerEnd (tasks (loadTasks e' s')) = map timerEnd (tasks s) \<and>
         map incomplete (tasks (loadTasks e' s')) = map incomplete (tasks s) \<and>
         ((\<forall>t \<in> set (tasks s). createdAt t \<noteq> None) \<longrightarrow>
            tasks (loadTasks e' s') = tasks s)"
proof -
  have sv: "storage (saveTasks e s) = Records (map toJSON (tasks s))"
    using assms(1) by (simp add: saveTasks_storage)
  have st: "storage s' = Records (map toJSON (tasks s))"
    using assms(3) sv by simp
  have nz: "\<forall>t \<in> set (tasks s). timerEnd_nonzero t"
    using assms(2) by (simp add: timers_nonzero_def)
  have ld: "tasks (loadTasks e' s') = map (normalize_task (now e')) (map toJSON (tasks s))"
    by (simp add: loadTasks_Records[OF st])
  have full: "tasks (loadTasks e' s') = tasks s"
    if "\<forall>t \<in> set (tasks s). createdAt t \<noteq> None"
    unfolding ld using that nz by (simp add: normalize_toJSON_id map_idI)
  show ?thesis
    using nz full sv by (simp add: ld normalize_toJSON_fields comp_def)
qed

theorem save_load_roundtrip_witness:
  "\<not> setItem_fails (env_at 2000) \<and> timers_nonzero (milk_state\<lparr>tasks := [milk, done_task]\<rparr>) \<and>
   storage (init_state\<lparr>storage :=
              storage (saveTasks (env_at 2000) (milk_state\<lparr>tasks := [milk, done_task]\<rparr>))\<rparr>)
     = storage (saveTasks (env_at 2000) (milk_state\<lparr>tasks := [milk, done_task]\<rparr>)) \<and>
   tasks (init_state\<lparr>storage :=
            storage (saveTasks (env_at 2000) (milk_state\<lparr>tasks := [milk, done_task]\<rparr>))\<rparr>)
     = [] \<and>
   tasks (loadTasks (env_at 5000)
            (init_state\<lparr>storage :=
               storage (saveTasks (env_at 2000) (milk_state\<lparr>tasks := [milk, done_task]\<rparr>))\<rparr>))
     = [milk, done_task]"
proof -
  let ?s = "milk_state\<lparr>tasks := [milk, done_task]\<rparr>"
  let ?page = "init_state\<lparr>storage := storage (saveTasks (env_at 2000) ?s)\<rparr>"
  have h1: "\<not> setItem_fails (env_at 2000)" by (simp add: env_at_def)
  have h2: "timers_nonzero ?s"
    by (simp add: timers_nonzero_def timerEnd_nonzero_def milk_def done_task_def)
  have h3: "storage ?page = storage (saveTasks (env_at 2000) ?s)" by simp
  have h4: "\<forall>t \<in> set (tasks ?s). createdAt t \<noteq> None"
    by (simp add: milk_def done_task_def)
  have em: "tasks ?page = []" by (simp add: init_state_def)
  have "tasks (loadTasks (env_at 5000) ?page) = tasks ?s"
    using save_load_roundtrip[OF h1 h2 h3, of "env_at 5000"] h4 by blast
  then have "tasks (loadTasks (env_at 5000) ?page) = [milk, done_task]" by simp
  with h1 h2 h3 em show ?thesis by blast
qed

section \<open>Toggling completion\<close>

lemma toggleTask_found:
  "List.find (by_id i) (tasks s) = Some t \<Longrightarrow>
   toggleTask e i s = (Undefined, saveTasks e (put_task i (toggled t) s))"
  by (cases t) (simp add: toggleTask_def toggled_def Let_def)

lemma by_id_toggled [simp]: "by_id i (toggled t) = by_id i t"
  by (simp add: by_id_def toggled_def)

lemma toggleTask_tasks:
  "tasks (snd (toggleTask e i s)) =
     (case List.find (by_id i) (tasks s) of
        None \<Rightarrow> tasks s
      | Some t \<Rightarrow> update_first (by_id i) (toggled t) (tasks s))"
proof (cases "List.find (by_id i) (tasks s)")
  case None
  then show ?thesis by (simp add: toggleTask_def)
next
  case (Some t)
  then show ?thesis by (simp add: toggleTask_found)
qed

text \<open>
  Claim C7, as stated, fails in its last part: \<open>toggleTask\<close> has no \<open>return\<close> statement, so
  the call evaluates to \<open>undefined\<close> whether or not a task has the id. In \<open>milk_state\<close> no task
  has id 2 and one has id 1, and both calls return the same value.
\<close>

theorem toggleTask_failure_indication_counterexample:
  "List.find (by_id 2) (tasks milk_state) = None \<and>
   List.find (by_id 1) (tasks milk_state) = Some milk \<and>
   fst (toggleTask (env_at 5) 2 milk_state) = fst (toggleTask (env_at 5) 1 milk_state)"
  by (simp add: toggleTask_def milk_state_def milk_def by_id_def Let_def)

text \<open>
  Claim C7, amended. \<open>toggleTask\<close> flips \<open>completed\<close> of the first task with the id; when the
  task becomes completed it also sets \<open>incomplete\<close> to false, \<open>timerEnd\<close> to \<open>null\<close> and
  \<open>timerRemainingSeconds\<close> to 0; it then calls \<open>saveTasks\<close>, and the store holds the collection
  when the write succeeds. Applied twice to the same id it restores the original value of
  \<open>completed\<close>. When no task has the id, the state is unchanged. In both cases the call
  returns \<open>undefined\<close>: nothing tells the caller that the id was not found.
\<close>

theorem toggleTask_effect:
  "fst (toggleTask e i s) = Undefined \<and>
   (List.find (by_id i) (tasks s) = None \<longrightarrow> snd (toggleTask e i s) = s) \<and>
   (\<forall>t. List.find (by_id i) (tasks s) = Some t \<longrightarrow>
      snd (toggleTask e i s) = saveTasks e (put_task i (toggled t) s) \<and>
      tasks (snd (toggleTask e i s)) = update_first (by_id i) (toggled t) (tasks s) \<and>
      List.find (by_id i) (tasks (snd (toggleTask e i s))) = Some (toggled t) \<and>
      completed (toggled t) = (\<not> completed t) \<and>
      (completed (toggled t) \<longrightarrow>
         \<not> incomplete (toggled t) \<and> timerEnd (toggled t) = None \<and>
         timerRemainingSeconds (toggled t) = 0) \<and>
      (\<not> setItem_fails e \<longrightarrow>
         storage (snd (toggleTask e i s)) = Records (map toJSON (tasks (snd (toggleTask e i s))))) \<and>
      List.find (by_id i) (tasks (snd (toggleTask e' i (snd (toggleTask e i s))))) =
        Some (toggled (toggled t)) \<and>
      completed (toggled (toggled t)) = completed t)"
proof (intro conjI allI impI)
  show "fst (toggleTask e i s) = Undefined"
    by (simp add: toggleTask_def Let_def split: option.splits)
  show "snd (toggleTask e i s) = s" if "List.find (by_id i) (tasks s) = None"
    using that by (simp add: toggleTask_def)
next
  fix t assume f: "List.find (by_id i) (tasks s) = Some t"
  have idt: "by_id i (toggled t)" using f find_Some_props by fastforce
  show run: "snd (toggleTask e i s) = saveTasks e (put_task i (toggled t) s)"
    by (simp add: toggleTask_found[OF f])
  show ts: "tasks (snd (toggleTask e i s)) = update_first (by_id i) (toggled t) (tasks s)"
    by (simp add: run)
  show f1: "List.find (by_id i) (tasks (snd (toggleTask e i s))) = Some (toggled t)"
    unfolding ts using find_update_first[OF f idt] .
  show "completed (toggled t) = (\<not> completed t)" by (simp add: toggled_def)
  show "\<not> incomplete (toggled t)" if "completed (toggled t)"
    using that by (simp add: toggled_def split: if_splits)
  show "timerEnd (toggled t) = None" if "completed (toggled t)"
    using that by (simp add: toggled_def split: if_splits)
  show "timerRemainingSeconds (toggled t) = 0" if "completed (toggled t)"
    using that by (simp add: toggled_def split: if_splits)
  show "storage (snd (toggleTask e i s)) = Records (map toJSON (tasks (snd (toggleTask e i s))))"
    if "\<not> setItem_fails e"
    using that by (simp add: run saveTasks_storage)
  have idt2: "by_id i (toggled (toggled t))" using idt by simp
  show "List.find (by_id i) (tasks (snd (toggleTask e' i (snd (toggleTask e i s))))) =
        Some (toggled (toggled t))"
    using find_update_first[OF f1 idt2] by (simp add: toggleTask_found[OF f1])
  show "completed (toggled (toggled t)) = completed t" by (simp add: toggled_def)
qed

theorem toggleTask_effect_witness:
  "List.find (by_id 2) (tasks milk_state) = None \<and>
   snd (toggleTask (env_at 5) 2 milk_state) = milk_state \<and>
   List.find (by_id 1) (tasks milk_state) = Some milk \<and>
   tasks (snd (toggleTask (env_at 5) 1 milk_state)) =
     [milk\<lparr>completed := True, timerEnd := None, timerRemainingSeconds := 0\<rparr>] \<and>
   \<not> setItem_fails (env_at 5) \<and>
   storage (snd (toggleTask (env_at 5) 1 milk_state)) =
     Records [toJSON (milk\<lparr>completed := True, timerEnd := None, timerRemainingSeconds := 0\<rparr>)] \<and>
   List.find (by_id 1)
     (tasks (snd (toggleTask (env_at 6) 1 (snd (toggleTask (env_at 5) 1 milk_state))))) =
     Some (milk\<lparr>timerEnd := None, timerRemainingSeconds := 0\<rparr>)"
proof -
  have n: "List.find (by_id 2) (tasks milk_state) = None"
    by (simp add: milk_state_def milk_def by_id_def)
  have f: "List.find (by_id 1) (tasks milk_state) = Some milk"
    by (simp add: milk_state_def milk_def by_id_def)
  have ok: "\<not> setItem_fails (env_at 5)" by (simp add: env_at_def)
  have tg: "toggled milk = milk\<lparr>completed := True, timerEnd := None, timerRemainingSeconds := 0\<rparr>"
    by (simp add: toggled_def milk_def)
  have tg2: "toggled (toggled milk) = milk\<lparr>timerEnd := None, timerRemainingSeconds := 0\<rparr>"
    by (simp add: toggled_def milk_def)
  note w = toggleTask_effect[of "env_at 5" _ milk_state "env_at 6"]
  have a: "snd (toggleTask (env_at 5) 2 milk_state) = milk_state"
    using w[of 2] n by blast
  note w1 = w[of 1, THEN conjunct2, THEN conjunct2, rule_format, OF f]
  have id1: "by_id 1 milk" by (simp add: by_id_def milk_def)
  have "tasks (snd (toggleTask (env_at 5) 1 milk_state)) =
          update_first (by_id 1) (toggled milk) (tasks milk_state)"
    using w1 by blast
  then have b: "tasks (snd (toggleTask (env_at 5) 1 milk_state)) =
             [milk\<lparr>completed := True, timerEnd := None, timerRemainingSeconds := 0\<rparr>]"
    using id1 by (simp add: tg milk_state_def)
  have "storage (snd (toggleTask (env_at 5) 1 milk_state)) =
          Records (map toJSON (tasks (snd (toggleTask (env_at 5) 1 milk_state))))"
    using w1 ok by blast
  then have c: "storage (snd (toggleTask (env_at 5) 1 milk_state)) =
     Records [toJSON (milk\<lparr>completed := True, timerEnd := None, timerRemainingSeconds := 0\<rparr>)]"
    by (simp add: b)
  have "List.find (by_id 1)
     (tasks (snd (toggleTask (env_at 6) 1 (snd (toggleTask (env_at 5) 1 milk_state))))) =
     Some (toggled (toggled milk))"
    using w1 by blast
  then have d: "List.find (by_id 1)
     (tasks (snd (toggleTask (env_at 6) 1 (snd (toggleTask (env_at 5) 1 milk_state))))) =
     Some (milk\<lparr>timerEnd := None, timerRemainingSeconds := 0\<rparr>)"
    by (simp add: tg2)
  from n a f b ok c d show ?thesis by blast
qed

section \<open>The loop of the periodic check\<close>

lemma checkTimers_loop_eq:
  "checkTimers_loop n ts =
     (map (\<lambda>t. if fires n t then expire t else t) ts,
      map (\<lambda>t. Toast (expiry_message t)) (filter (fires n) ts),
      list_ex (fires n) ts)"
  by (induction ts) (auto simp: fires_def expire_def expiry_message_def split: option.splits)

lemma fires_due: "timerEnd_nonzero t \<Longrightarrow> fires n t = due n t"
  by (auto simp: fires_def due_def timerEnd_nonzero_def num_truthy_def split: option.splits)

lemma checkTimers_tasks:
  "tasks (checkTimers e s) = map (\<lambda>t. if fires (int (now e)) t then expire t else t) (tasks s)"
  by (simp add: checkTimers_def checkTimers_loop_eq Let_def)

lemma checkTimers_toasts:
  "toasts_of (ui (checkTimers e s)) =
     toasts_of (ui s) @ map expiry_message (filter (fires (int (now e))) (tasks s))"
  by (simp add: checkTimers_def checkTimers_loop_eq Let_def)

lemma checkTimers_taskId [simp]: "taskId (checkTimers e s) = taskId s"
  by (simp add: checkTimers_def checkTimers_loop_eq Let_def)

lemma not_fires_expire [simp]: "\<not> fires n (expire t)"
  by (simp add: fires_def expire_def)

lemma fires_to_due:
  assumes "\<forall>t \<in> set ts. timerEnd_nonzero t"
  shows "map (\<lambda>t. if fires n t then expire t else t) ts = map (\<lambda>t. if due n t then expire t else t) ts"
    and "filter (fires n) ts = filter (due n) ts"
  using assms by (auto simp: fires_due intro!: filter_cong)

lemma second_tick_toasts:
  "\<forall>t \<in> set ts. timerEnd_nonzero t \<Longrightarrow>
   map expiry_message (filter (fires n') (map (\<lambda>t. if due n t then expire t else t) ts))
     = map expiry_message (filter (\<lambda>t. \<not> due n t \<and> due n' t) ts)"
  by (induction ts) (auto simp: fires_due)

section \<open>Starting, pausing and resetting a timer\<close>

lemma by_id_expire [simp]: "by_id i (expire t) = by_id i t"
  by (simp add: by_id_def expire_def)

lemma round_div_past: "d \<le> 0 \<Longrightarrow> max 0 (round_div_1000 d) = 0"
  by (simp add: round_div_1000_def max_def) 

lemma pauseTimer_running:
  assumes "List.find (by_id i) (tasks s) = Some t" and "timerEnd t = Some te" and "te \<noteq> 0"
    and "\<not> completed t" and "\<not> incomplete t"
  shows "pauseTimer e i s =
           saveTasks e (put_task i
             (t\<lparr>timerRemainingSeconds := max 0 (round_div_1000 (te - int (now e))),
                timerEnd := None\<rparr>) s)"
  using assms by (simp add: pauseTimer_def num_truthy_def Let_def)

lemma startTimer_idle:
  assumes "List.find (by_id i) (tasks s) = Some t" and "timerEnd t = None"
    and "\<not> completed t" and "\<not> incomplete t" and "timerRemainingSeconds t = 0"
  shows "tasks (startTimer e i s) =
           update_first (by_id i)
             (t\<lparr>timerRemainingSeconds := timerSeconds t,
                timerEnd := (if timerSeconds t > 0
                             then Some (int (now e) + timerSeconds t * 1000) else None)\<rparr>)
             (tasks s)"
  using assms by (cases t) (simp add: startTimer_def num_truthy_def Let_def)

lemma startTimer_tasks:
  "tasks (startTimer e i s) =
     (case List.find (by_id i) (tasks s) of
        None \<Rightarrow> tasks s
      | Some t \<Rightarrow> update_first (by_id i) (start_step (now e) t) (tasks s))"
proof (cases "List.find (by_id i) (tasks s)")
  case None
  then show ?thesis by (simp add: startTimer_def)
next
  case (Some t)
  show ?thesis
  proof (cases "completed t \<or> incomplete t \<or> opt_truthy (timerEnd t)")
    case True
    then have "startTimer e i s = s" and "start_step (now e) t = t"
      using Some by (auto simp: startTimer_def start_step_def)
    then show ?thesis using Some by (simp add: update_first_same)
  next
    case False
    then show ?thesis using Some
      by (simp add: startTimer_def start_step_def Let_def)
  qed
qed

lemma pauseTimer_tasks:
  "tasks (pauseTimer e i s) =
     (case List.find (by_id i) (tasks s) of
        None \<Rightarrow> tasks s
      | Some t \<Rightarrow> update_first (by_id i) (pause_step (now e) t) (tasks s))"
proof (cases "List.find (by_id i) (tasks s)")
  case None
  then show ?thesis by (simp add: pauseTimer_def)
next
  case (Some t)
  show ?thesis
  proof (cases "completed t \<or> incomplete t \<or> \<not> opt_truthy (timerEnd t)")
    case True
    then have "pauseTimer e i s = s" and "pause_step (now e) t = t"
      using Some by (auto simp: pauseTimer_def pause_step_def)
    then show ?thesis using Some by (simp add: update_first_same)
  next
    case False
    then obtain te where "timerEnd t = Some te" by (cases "timerEnd t") auto
    with False Some show ?thesis
      by (simp add: pauseTimer_def pause_step_def Let_def)
  qed
qed

lemma resetTimer_tasks:
  "tasks (resetTimer e i s) =
     (case List.find (by_id i) (tasks s) of
        None \<Rightarrow> tasks s
      | Some t \<Rightarrow> update_first (by_id i) (reset_step t) (tasks s))"
  by (simp add: resetTimer_def reset_step_def split: option.splits)

lemma timer_ops_taskId [simp]:
  "taskId (startTimer e i s) = taskId s"
  "taskId (pauseTimer e i s) = taskId s"
  "taskId (resetTimer e i s) = taskId s"
  "taskId (snd (toggleTask e i s)) = taskId s"
  "taskId (deleteTask e i s) = taskId s"
  "taskId (clearCompleted e s) = taskId s"
  by (simp_all add: startTimer_def pauseTimer_def resetTimer_def toggleTask_def deleteTask_def
        clearCompleted_def Let_def split: option.splits)

lemma step_ids [simp]:
  "task_id (start_step n t) = task_id t"
  "task_id (pause_step n t) = task_id t"
  "task_id (reset_step t) = task_id t"
  "task_id (toggled t) = task_id t"
  "task_id (expire t) = task_id t"
  by (simp_all add: start_step_def pause_step_def reset_step_def toggled_def expire_def Let_def
        split: option.splits)


lemma startTimer_toasts [simp]: "toasts_of (ui (startTimer e i s)) = toasts_of (ui s)"
  by (simp add: startTimer_def Let_def split: option.splits)

text \<open>
  Claim C9. A running task (\<open>timerEnd\<close> set, not completed, not incomplete) whose \<open>timerEnd\<close>
  has passed and that is paused before the next check gets \<open>timerRemainingSeconds = 0\<close> and
  \<open>timerEnd = null\<close>; \<open>incomplete\<close> stays false and no toast is shown. No later check marks it
  incomplete, and a later start restores \<open>timerRemainingSeconds\<close> to \<open>timerSeconds\<close> (and runs
  the timer for that long when \<open>timerSeconds\<close> is positive). The task is the one that \<open>find\<close>
  returns for the id, and its \<open>timerEnd\<close> is not the timestamp 0, which the program reads as
  not running.
\<close>

theorem pause_after_expiry:
  assumes "List.find (by_id i) (tasks s) = Some t"
    and "timerEnd t = Some te" and "te \<noteq> 0"
    and "\<not> completed t" and "\<not> incomplete t"
    and "te \<le> int (now e)"
  shows "tasks (pauseTimer e i s) =
           update_first (by_id i) (t\<lparr>timerRemainingSeconds := 0, timerEnd := None\<rparr>) (tasks s) \<and>
         List.find (by_id i) (tasks (pauseTimer e i s)) =
           Some (t\<lparr>timerRemainingSeconds := 0, timerEnd := None\<rparr>) \<and>
         toasts_of (ui (pauseTimer e i s)) = toasts_of (ui s) \<and>
         List.find (by_id i) (tasks (checkTimers e1 (pauseTimer e i s))) =
           Some (t\<lparr>timerRemainingSeconds := 0, timerEnd := None\<rparr>) \<and>
         List.find (by_id i) (tasks (startTimer e2 i (pauseTimer e i s))) =
           Some (t\<lparr>timerRemainingSeconds := timerSeconds t,
                   timerEnd := (if timerSeconds t > 0
                                then Some (int (now e2) + timerSeconds t * 1000) else None)\<rparr>)"
proof -
  let ?p = "t\<lparr>timerRemainingSeconds := 0, timerEnd := None\<rparr>"
  have idt: "by_id i t" using assms(1) find_Some_props by fastforce
  have idp: "by_id i ?p" using idt by (simp add: by_id_def)
  have r0: "max 0 (round_div_1000 (te - int (now e))) = 0"
    using assms(6) by (intro round_div_past) simp
  have run: "pauseTimer e i s = saveTasks e (put_task i ?p s)"
    using pauseTimer_running[OF assms(1-5)] r0 by simp
  have a: "tasks (pauseTimer e i s) = update_first (by_id i) ?p (tasks s)"
    by (simp add: run)
  have b: "List.find (by_id i) (tasks (pauseTimer e i s)) = Some ?p"
    unfolding a using find_update_first[OF assms(1) idp] .
  have c: "toasts_of (ui (pauseTimer e i s)) = toasts_of (ui s)"
    by (simp add: run)
  have nf: "\<not> fires n ?p" for n by (simp add: fires_def)
  have d: "List.find (by_id i) (tasks (checkTimers e1 (pauseTimer e i s))) = Some ?p"
    by (simp add: checkTimers_tasks find_map_preserving b nf)
  let ?q = "t\<lparr>timerRemainingSeconds := timerSeconds t,
                timerEnd := (if timerSeconds t > 0
                             then Some (int (now e2) + timerSeconds t * 1000) else None)\<rparr>"
  have eq: "?p\<lparr>timerRemainingSeconds := timerSeconds ?p,
               timerEnd := (if timerSeconds ?p > 0
                            then Some (int (now e2) + timerSeconds ?p * 1000) else None)\<rparr> = ?q"
    by simp
  have st: "tasks (startTimer e2 i (pauseTimer e i s)) =
              update_first (by_id i) ?q (tasks (pauseTimer e i s))"
    using startTimer_idle[OF b, of e2] assms(4,5) unfolding eq by simp
  have idq: "by_id i ?q" using idt by (simp add: by_id_def)
  have f: "List.find (by_id i) (tasks (startTimer e2 i (pauseTimer e i s))) = Some ?q"
    unfolding st using find_update_first[OF b idq] .
  from a b c d f show ?thesis by blast
qed

theorem pause_after_expiry_witness:
  "List.find (by_id 1) (tasks milk_state) = Some milk \<and> timerEnd milk = Some 61000 \<and>
   (61000 :: int) \<noteq> 0 \<and> \<not> completed milk \<and> \<not> incomplete milk \<and>
   (61000 :: int) \<le> int (now (env_at 61500)) \<and>
   tasks (pauseTimer (env_at 61500) 1 milk_state) =
     [milk\<lparr>timerRemainingSeconds := 0, timerEnd := None\<rparr>] \<and>
   toasts_of (ui (pauseTimer (env_at 61500) 1 milk_state)) = [] \<and>
   List.find (by_id 1) (tasks (checkTimers (env_at 62000) (pauseTimer (env_at 61500) 1 milk_state)))
     = Some (milk\<lparr>timerRemainingSeconds := 0, timerEnd := None\<rparr>) \<and>
   List.find (by_id 1) (tasks (startTimer (env_at 70000) 1 (pauseTimer (env_at 61500) 1 milk_state)))
     = Some (milk\<lparr>timerRemainingSeconds := 60, timerEnd := Some 130000\<rparr>)"
proof -
  have h1: "List.find (by_id 1) (tasks milk_state) = Some milk"
    by (simp add: milk_state_def milk_def by_id_def)
  have h2: "timerEnd milk = Some 61000" by (simp add: milk_def)
  have h3: "(61000 :: int) \<noteq> 0" by simp
  have h4: "\<not> completed milk" and h5: "\<not> incomplete milk" by (simp_all add: milk_def)
  have h6: "(61000 :: int) \<le> int (now (env_at 61500))" by (simp add: env_at_def)
  note w = pause_after_expiry[OF h1 h2 h3 h4 h5 h6, of "env_at 62000" "env_at 70000"]
  have a: "tasks (pauseTimer (env_at 61500) 1 milk_state) =
             [milk\<lparr>timerRemainingSeconds := 0, timerEnd := None\<rparr>]"
    using w by (simp add: milk_state_def milk_def by_id_def)
  have b: "toasts_of (ui (pauseTimer (env_at 61500) 1 milk_state)) = []"
    using w by (simp add: milk_state_def)
  have c: "List.find (by_id 1)
             (tasks (checkTimers (env_at 62000) (pauseTimer (env_at 61500) 1 milk_state)))
           = Some (milk\<lparr>timerRemainingSeconds := 0, timerEnd := None\<rparr>)"
    using w by blast
  have d: "List.find (by_id 1)
             (tasks (startTimer (env_at 70000) 1 (pauseTimer (env_at 61500) 1 milk_state)))
           = Some (milk\<lparr>timerRemainingSeconds := 60, timerEnd := Some 130000\<rparr>)"
    using w by (simp add: milk_def env_at_def)
  from h1 h2 h3 h4 h5 h6 a b c d show ?thesis by blast
qed

section \<open>Expiry\<close>

lemma started_timer_fires:
  assumes "timerSeconds t = 60" and "\<not> completed t" and "\<not> incomplete t"
    and "0 \<le> timerRemainingSeconds t" and "timerRemainingSeconds t \<le> 60"
    and "case timerEnd t of None \<Rightarrow> True | Some te \<Rightarrow> te \<noteq> 0 \<and> te \<le> int n0 + 61000"
  shows "fires (int n0 + 61000) (start_step n0 t)"
    and "expire (start_step n0 t) = expire t"
    and "expiry_message (start_step n0 t) = expiry_message t"
  using assms
  by (auto simp: fires_def start_step_def expire_def expiry_message_def num_truthy_def Let_def
        split: option.splits)

lemma one_minute_timer_expires:
  assumes "tasks s0 = [t]" and "timerSeconds t = 60" and "\<not> completed t" and "\<not> incomplete t"
    and "0 \<le> timerRemainingSeconds t" and "timerRemainingSeconds t \<le> 60"
    and "case timerEnd t of None \<Rightarrow> True | Some te \<Rightarrow> te \<noteq> 0 \<and> te \<le> int (now e0) + 61000"
    and "now e1 = now e0 + 61000"
  shows "tasks (checkTimers e1 (startTimer e0 (task_id t) s0)) = [expire t] \<and>
         toasts_of (ui (checkTimers e1 (startTimer e0 (task_id t) s0))) =
           toasts_of (ui s0) @ [expiry_message t]"
proof -
  have f: "List.find (by_id (task_id t)) (tasks s0) = Some t"
    by (simp add: assms(1) by_id_def)
  have st: "tasks (startTimer e0 (task_id t) s0) = [start_step (now e0) t]"
    by (simp add: startTimer_tasks f) (simp add: assms(1) by_id_def)
  have n1: "int (now e1) = int (now e0) + 61000" using assms(8) by simp
  note k = started_timer_fires[OF assms(2-7)]
  show ?thesis
    by (simp add: checkTimers_tasks checkTimers_toasts st n1 k)
qed

text \<open>
  Claim C4. \<open>checkTimers\<close> at the time \<open>now\<close> sets \<open>incomplete = true\<close>, \<open>timerEnd = null\<close> and
  \<open>timerRemainingSeconds = 0\<close> on every task that is \<open>due\<close> (its \<open>timerEnd\<close> is set and not after
  \<open>now\<close>, it is not completed and not already incomplete) and leaves every other task as it
  is; it shows one toast with the task's text for each due task, in order, and no other.
  A second check, at any time, shows toasts only for tasks that were not due at the first:
  a task marked incomplete is not notified again. In particular, when the collection holds
  one task with \<open>timerSeconds = 60\<close>, neither completed nor incomplete, with between 0 and 60
  seconds remaining (or already running), starting it at \<open>t0\<close> and checking at \<open>t0 + 61000\<close>
  expires it and shows exactly one toast. The collection is one whose timers do not end at
  the timestamp 0, as in every reachable state (lemma \<open>reachable_timerEnd_nonzero\<close>).
\<close>

theorem checkTimers_expiry:
  "(timers_nonzero s \<longrightarrow>
      tasks (checkTimers e s) =
        map (\<lambda>t. if due (int (now e)) t then expire t else t) (tasks s) \<and>
      toasts_of (ui (checkTimers e s)) =
        toasts_of (ui s) @ map expiry_message (filter (due (int (now e))) (tasks s)) \<and>
      toasts_of (ui (checkTimers e' (checkTimers e s))) =
        toasts_of (ui (checkTimers e s)) @
        map expiry_message
          (filter (\<lambda>t. \<not> due (int (now e)) t \<and> due (int (now e')) t) (tasks s))) \<and>
   (tasks s0 = [t] \<and> timerSeconds t = 60 \<and> \<not> completed t \<and> \<not> incomplete t \<and>
    0 \<le> timerRemainingSeconds t \<and> timerRemainingSeconds t \<le> 60 \<and>
    (case timerEnd t of None \<Rightarrow> True | Some te \<Rightarrow> te \<noteq> 0 \<and> te \<le> int (now e0) + 61000) \<and>
    now e1 = now e0 + 61000 \<longrightarrow>
      tasks (checkTimers e1 (startTimer e0 (task_id t) s0)) = [expire t] \<and>
      toasts_of (ui (checkTimers e1 (startTimer e0 (task_id t) s0))) =
        toasts_of (ui s0) @ [expiry_message t])"
proof (intro conjI impI)
  let ?n = "int (now e)" and ?n' = "int (now e')"
  assume "timers_nonzero s"
  then have nz: "\<forall>t \<in> set (tasks s). timerEnd_nonzero t"
    by (simp add: timers_nonzero_def)
  show a: "tasks (checkTimers e s) = map (\<lambda>t. if due ?n t then expire t else t) (tasks s)"
    using fires_to_due(1)[OF nz] by (simp add: checkTimers_tasks)
  show "toasts_of (ui (checkTimers e s)) =
           toasts_of (ui s) @ map expiry_message (filter (due ?n) (tasks s))"
    using fires_to_due(2)[OF nz] by (simp add: checkTimers_toasts)
  show "toasts_of (ui (checkTimers e' (checkTimers e s))) =
           toasts_of (ui (checkTimers e s)) @
           map expiry_message (filter (\<lambda>t. \<not> due ?n t \<and> due ?n' t) (tasks s))"
    using second_tick_toasts[OF nz] by (simp add: checkTimers_toasts[of e'] a)
next
  assume h: "tasks s0 = [t] \<and> timerSeconds t = 60 \<and> \<not> completed t \<and> \<not> incomplete t \<and>
    0 \<le> timerRemainingSeconds t \<and> timerRemainingSeconds t \<le> 60 \<and>
    (case timerEnd t of None \<Rightarrow> True | Some te \<Rightarrow> te \<noteq> 0 \<and> te \<le> int (now e0) + 61000) \<and>
    now e1 = now e0 + 61000"
  then have r: "tasks (checkTimers e1 (startTimer e0 (task_id t) s0)) = [expire t] \<and>
         toasts_of (ui (checkTimers e1 (startTimer e0 (task_id t) s0))) =
           toasts_of (ui s0) @ [expiry_message t]"
    by (intro one_minute_timer_expires) simp_all
  from r show "tasks (checkTimers e1 (startTimer e0 (task_id t) s0)) = [expire t]" by blast
  from r show "toasts_of (ui (checkTimers e1 (startTimer e0 (task_id t) s0))) =
           toasts_of (ui s0) @ [expiry_message t]" by blast
qed

theorem checkTimers_expiry_witness:
  "timers_nonzero (milk_state\<lparr>tasks := [milk, done_task]\<rparr>) \<and>
   tasks (checkTimers (env_at 61000) (milk_state\<lparr>tasks := [milk, done_task]\<rparr>)) =
     [milk\<lparr>incomplete := True, timerEnd := None, timerRemainingSeconds := 0\<rparr>, done_task] \<and>
   toasts_of (ui (checkTimers (env_at 61000) (milk_state\<lparr>tasks := [milk, done_task]\<rparr>))) =
     [''Timer expired: Buy milk''] \<and>
   toasts_of (ui (checkTimers (env_at 70000)
                   (checkTimers (env_at 61000) (milk_state\<lparr>tasks := [milk, done_task]\<rparr>)))) =
     [''Timer expired: Buy milk''] \<and>
   tasks (milk_state\<lparr>tasks := [milk\<lparr>timerEnd := None, timerRemainingSeconds := 30\<rparr>]\<rparr>) =
     [milk\<lparr>timerEnd := None, timerRemainingSeconds := 30\<rparr>] \<and>
   now (env_at 161000) = now (env_at 100000) + 61000 \<and>
   tasks (checkTimers (env_at 161000)
            (startTimer (env_at 100000) 1
               (milk_state\<lparr>tasks := [milk\<lparr>timerEnd := None, timerRemainingSeconds := 30\<rparr>]\<rparr>))) =
     [milk\<lparr>incomplete := True, timerEnd := None, timerRemainingSeconds := 0\<rparr>] \<and>
   toasts_of (ui (checkTimers (env_at 161000)
            (startTimer (env_at 100000) 1
               (milk_state\<lparr>tasks := [milk\<lparr>timerEnd := None, timerRemainingSeconds := 30\<rparr>]\<rparr>)))) =
     [''Timer expired: Buy milk'']"
proof -
  let ?s = "milk_state\<lparr>tasks := [milk, done_task]\<rparr>"
  let ?p = "milk\<lparr>timerEnd := None, timerRemainingSeconds := 30\<rparr>"
  let ?z = "milk_state\<lparr>tasks := [?p]\<rparr>"
  have h: "timers_nonzero ?s"
    by (simp add: timers_nonzero_def timerEnd_nonzero_def milk_def done_task_def)
  have d1: "due (int (now (env_at 61000))) milk" "\<not> due n done_task" for n
    by (simp_all add: due_def milk_def done_task_def env_at_def)
  have d2: "\<not> (\<not> due (int (now (env_at 61000))) milk \<and> due (int (now (env_at 70000))) milk)"
    using d1 by simp
  have ex: "expire milk = milk\<lparr>incomplete := True, timerEnd := None, timerRemainingSeconds := 0\<rparr>"
    "expire ?p = milk\<lparr>incomplete := True, timerEnd := None, timerRemainingSeconds := 0\<rparr>"
    by (simp_all add: expire_def)
  have msg: "expiry_message milk = ''Timer expired: Buy milk''"
    "expiry_message ?p = ''Timer expired: Buy milk''"
    by (simp_all add: expiry_message_def milk_def)
  have u: "ui ?s = []" "ui ?z = []" "tasks ?s = [milk, done_task]"
    by (simp_all add: milk_state_def)
  note w = checkTimers_expiry[of ?s "env_at 61000" "env_at 70000", THEN conjunct1, rule_format, OF h]
  have a: "tasks (checkTimers (env_at 61000) ?s) =
     [milk\<lparr>incomplete := True, timerEnd := None, timerRemainingSeconds := 0\<rparr>, done_task]"
    using w d1 by (simp add: u ex)
  have b: "toasts_of (ui (checkTimers (env_at 61000) ?s)) = [''Timer expired: Buy milk'']"
    using w d1 by (simp add: u msg)
  have c: "toasts_of (ui (checkTimers (env_at 70000) (checkTimers (env_at 61000) ?s))) =
     [''Timer expired: Buy milk'']"
    using w d1 d2 by (simp add: u msg)
  have k1: "tasks ?z = [?p]" by simp
  have k2: "now (env_at 161000) = now (env_at 100000) + 61000" by (simp add: env_at_def)
  have k3: "timerSeconds ?p = 60 \<and> \<not> completed ?p \<and> \<not> incomplete ?p \<and>
    0 \<le> timerRemainingSeconds ?p \<and> timerRemainingSeconds ?p \<le> 60 \<and>
    (case timerEnd ?p of None \<Rightarrow> True
     | Some te \<Rightarrow> te \<noteq> 0 \<and> te \<le> int (now (env_at 100000)) + 61000)"
    by (simp add: milk_def)
  have id: "task_id ?p = 1" by (simp add: milk_def)
  note v = checkTimers_expiry[of _ _ _ ?z ?p "env_at 100000" "env_at 161000",
      THEN conjunct2, rule_format, unfolded id]
  have d: "tasks (checkTimers (env_at 161000) (startTimer (env_at 100000) 1 ?z)) =
     [milk\<lparr>incomplete := True, timerEnd := None, timerRemainingSeconds := 0\<rparr>]"
    using v k1 k2 k3 by (simp add: ex)
  have f: "toasts_of (ui (checkTimers (env_at 161000) (startTimer (env_at 100000) 1 ?z))) =
     [''Timer expired: Buy milk'']"
    using v k1 k2 k3 by (simp add: u msg)
  from h a b c k1 k2 d f show ?thesis by blast
qed

section \<open>The invariant of completed tasks\<close>

lemma task_inv_steps:
  "task_inv t \<Longrightarrow> task_inv (start_step n t)"
  "task_inv t \<Longrightarrow> task_inv (pause_step n t)"
  "task_inv (toggled t)"
  "fires m t \<Longrightarrow> task_inv (expire t)"
  by (auto simp: task_inv_def start_step_def pause_step_def toggled_def expire_def fires_def
        Let_def split: option.splits)

lemma inv_addTask: "state_inv s \<Longrightarrow> state_inv (snd (addTask e txt tin s))"
  by (simp add: state_inv_def addTask_tasks task_inv_def)

lemma inv_deleteTask: "state_inv s \<Longrightarrow> state_inv (deleteTask e i s)"
  by (simp add: deleteTask_def state_inv_def)

lemma inv_clearCompleted: "state_inv s \<Longrightarrow> state_inv (clearCompleted e s)"
  by (simp add: clearCompleted_def state_inv_def)

lemma inv_toggleTask: "state_inv s \<Longrightarrow> state_inv (snd (toggleTask e i s))"
  unfolding state_inv_def toggleTask_tasks
  by (rule pointwise_found_update) (simp_all add: task_inv_steps)

lemma inv_startTimer: "state_inv s \<Longrightarrow> state_inv (startTimer e i s)"
  unfolding state_inv_def startTimer_tasks
  by (rule pointwise_found_update) (simp_all add: task_inv_steps)

lemma inv_pauseTimer: "state_inv s \<Longrightarrow> state_inv (pauseTimer e i s)"
  unfolding state_inv_def pauseTimer_tasks
  by (rule pointwise_found_update) (simp_all add: task_inv_steps)

lemma inv_checkTimers: "state_inv s \<Longrightarrow> state_inv (checkTimers e s)"
  by (auto simp: state_inv_def checkTimers_tasks task_inv_steps)


lemma inv_resetTimer:
  assumes "state_inv s"
    and "\<forall>t. List.find (by_id i) (tasks s) = Some t \<longrightarrow> \<not> completed t \<or> timerSeconds t = 0"
  shows "state_inv (resetTimer e i s)"
proof (cases "List.find (by_id i) (tasks s)")
  case None
  then show ?thesis using assms(1) by (simp add: state_inv_def resetTimer_tasks)
next
  case (Some t)
  then have "\<not> completed t \<or> timerSeconds t = 0" using assms(2) by simp
  then have "task_inv (reset_step t)"
    by (auto simp: task_inv_def reset_step_def num_truthy_def)
  then show ?thesis
    using assms(1) Some pointwise_update_first[of "tasks s" task_inv "reset_step t" "by_id i"]
    by (simp add: state_inv_def resetTimer_tasks)
qed

lemma reset_step_eq:
  "reset_step t = t\<lparr>timerRemainingSeconds := timerSeconds t, timerEnd := None, incomplete := False\<rparr>"
  by (simp add: reset_step_def num_truthy_def)

lemma resetTimer_found:
  assumes "List.find (by_id i) (tasks s) = Some t"
  shows "List.find (by_id i) (tasks (resetTimer e i s)) = Some (reset_step t)"
proof -
  have "by_id i (reset_step t)"
    using assms find_Some_props by (fastforce simp: by_id_def)
  from find_update_first[OF assms this] show ?thesis
    by (simp add: resetTimer_tasks assms)
qed

lemma task_inv_roundtrip: "task_inv t \<Longrightarrow> task_inv (normalize_task n (toJSON t))"
  by (cases "timerEnd t") (auto simp: task_inv_def normalize_task_def toJSON_def)

lemma inv_load_saved:
  assumes "state_inv s" and "\<not> setItem_fails e"
  shows "state_inv (loadTasks e' (saveTasks e s))"
proof -
  have st: "storage (saveTasks e s) = Records (map toJSON (tasks s))"
    using assms(2) by (simp add: saveTasks_storage)
  show ?thesis
    using assms(1) by (auto simp: loadTasks_Records[OF st] state_inv_def task_inv_roundtrip)
qed

lemma inv_load_other:
  "state_inv s \<Longrightarrow> storage s = NoItem \<or> storage s = Unparseable \<Longrightarrow> state_inv (loadTasks e s)"
  by (auto simp: loadTasks_def state_inv_def)

lemma inv_load_records:
  "storage s = Records rs \<Longrightarrow> \<forall>r \<in> set rs. task_inv (normalize_task (now e) r) \<Longrightarrow>
   state_inv (loadTasks e s)"
  by (auto simp: loadTasks_Records state_inv_def)

text \<open>
  Claim C5, as stated, fails. \<open>resetTimer\<close> has no guard on \<open>completed\<close> and sets
  \<open>timerRemainingSeconds\<close> to \<open>timerSeconds\<close>: on the completed task of \<open>done_state\<close>, whose timer is
  one minute, it leaves a completed task with 60 remaining seconds. \<open>loadTasks\<close> takes the
  stored records as they are: from a store holding a completed record with \<open>timerSeconds = 60\<close>
  and no \<open>timerRemainingSeconds\<close> it builds a completed task with 60 remaining seconds.
\<close>

theorem completed_invariant_counterexample:
  "state_inv done_state \<and>
   \<not> state_inv (resetTimer (env_at 5) 1 done_state) \<and>
   state_inv (stored_state [legacy_record\<lparr>r_completed := Some (JBool True),
                                          r_timerSeconds := Some 60\<rparr>]) \<and>
   \<not> state_inv (loadTasks (env_at 5)
                  (stored_state [legacy_record\<lparr>r_completed := Some (JBool True),
                                               r_timerSeconds := Some 60\<rparr>]))"
  by (simp add: state_inv_def task_inv_def done_state_def done_task_def resetTimer_def by_id_def
        num_truthy_def saveTasks_def env_at_def put_task_def stored_state_def loadTasks_def
        normalize_task_def legacy_record_def Let_def)

text \<open>
  Claim C5, amended. The invariant (a completed task is not incomplete, has no \<open>timerEnd\<close> and
  has 0 remaining seconds) holds for every task after add, delete, toggleCompleted,
  clearCompleted, startTimer, pauseTimer and checkExpiry applied to a state satisfying it. It
  holds after load when the stored records satisfy it once normalized, as the records written
  by a successful save of a state satisfying it do, and when there is no item or the item
  does not parse. It holds after resetTimer when the task found is not completed or has
  \<open>timerSeconds = 0\<close>; in every case the task found gets \<open>timerRemainingSeconds = timerSeconds\<close>,
  \<open>timerEnd = null\<close> and \<open>incomplete = false\<close>.
\<close>

theorem completed_invariant_preserved:
  assumes "state_inv s"
  shows "state_inv (snd (addTask e txt timerInput s)) \<and>
         state_inv (deleteTask e i s) \<and>
         state_inv (snd (toggleTask e i s)) \<and>
         state_inv (clearCompleted e s) \<and>
         state_inv (startTimer e i s) \<and>
         state_inv (pauseTimer e i s) \<and>
         state_inv (checkTimers e s) \<and>
         (\<not> setItem_fails e \<longrightarrow> state_inv (loadTasks e' (saveTasks e s))) \<and>
         (storage s = NoItem \<or> storage s = Unparseable \<longrightarrow> state_inv (loadTasks e s)) \<and>
         (\<forall>rs. storage s = Records rs \<and> (\<forall>r \<in> set rs. task_inv (normalize_task (now e) r)) \<longrightarrow>
               state_inv (loadTasks e s)) \<and>
         ((\<forall>t. List.find (by_id i) (tasks s) = Some t \<longrightarrow> \<not> completed t \<or> timerSeconds t = 0) \<longrightarrow>
            state_inv (resetTimer e i s)) \<and>
         (\<forall>t. List.find (by_id i) (tasks s) = Some t \<longrightarrow>
            List.find (by_id i) (tasks (resetTimer e i s)) =
              Some (t\<lparr>timerRemainingSeconds := timerSeconds t, timerEnd := None,
                      incomplete := False\<rparr>))"
proof (intro conjI allI impI)
  show "state_inv (snd (addTask e txt timerInput s))" by (rule inv_addTask[OF assms])
  show "state_inv (deleteTask e i s)" by (rule inv_deleteTask[OF assms])
  show "state_inv (snd (toggleTask e i s))" by (rule inv_toggleTask[OF assms])
  show "state_inv (clearCompleted e s)" by (rule inv_clearCompleted[OF assms])
  show "state_inv (startTimer e i s)" by (rule inv_startTimer[OF assms])
  show "state_inv (pauseTimer e i s)" by (rule inv_pauseTimer[OF assms])
  show "state_inv (checkTimers e s)" by (rule inv_checkTimers[OF assms])
  show "state_inv (loadTasks e' (saveTasks e s))" if "\<not> setItem_fails e"
    by (rule inv_load_saved[OF assms that])
  show "state_inv (loadTasks e s)" if "storage s = NoItem \<or> storage s = Unparseable"
    by (rule inv_load_other[OF assms that])
  show "state_inv (loadTasks e s)"
    if "storage s = Records rs \<and> (\<forall>r \<in> set rs. task_inv (normalize_task (now e) r))" for rs
    using that inv_load_records by blast
  show "state_inv (resetTimer e i s)"
    if "\<forall>t. List.find (by_id i) (tasks s) = Some t \<longrightarrow> \<not> completed t \<or> timerSeconds t = 0"
    by (rule inv_resetTimer[OF assms that])
  show "List.find (by_id i) (tasks (resetTimer e i s)) =
              Some (t\<lparr>timerRemainingSeconds := timerSeconds t, timerEnd := None,
                      incomplete := False\<rparr>)"
    if "List.find (by_id i) (tasks s) = Some t" for t
    using resetTimer_found[OF that] by (simp add: reset_step_eq)
qed

theorem completed_invariant_preserved_witness:
  "state_inv (done_state\<lparr>tasks := [done_task, milk\<lparr>task_id := 2\<rparr>]\<rparr>) \<and>
   state_inv (snd (toggleTask (env_at 5) 2 (done_state\<lparr>tasks := [done_task, milk\<lparr>task_id := 2\<rparr>]\<rparr>))) \<and>
   state_inv (checkTimers (env_at 5) (done_state\<lparr>tasks := [done_task, milk\<lparr>task_id := 2\<rparr>]\<rparr>)) \<and>
   \<not> setItem_fails (env_at 5) \<and>
   state_inv (loadTasks (env_at 9)
     (saveTasks (env_at 5) (done_state\<lparr>tasks := [done_task, milk\<lparr>task_id := 2\<rparr>]\<rparr>))) \<and>
   storage (done_state\<lparr>tasks := [done_task, milk\<lparr>task_id := 2\<rparr>]\<rparr>) = NoItem \<and>
   state_inv (loadTasks (env_at 5) (done_state\<lparr>tasks := [done_task, milk\<lparr>task_id := 2\<rparr>]\<rparr>)) \<and>
   List.find (by_id 2) (tasks (done_state\<lparr>tasks := [done_task, milk\<lparr>task_id := 2\<rparr>]\<rparr>))
     = Some (milk\<lparr>task_id := 2\<rparr>) \<and>
   \<not> completed (milk\<lparr>task_id := 2\<rparr>) \<and>
   state_inv (resetTimer (env_at 5) 2 (done_state\<lparr>tasks := [done_task, milk\<lparr>task_id := 2\<rparr>]\<rparr>)) \<and>
   List.find (by_id 2)
     (tasks (resetTimer (env_at 5) 2 (done_state\<lparr>tasks := [done_task, milk\<lparr>task_id := 2\<rparr>]\<rparr>)))
     = Some (milk\<lparr>task_id := 2, timerEnd := None\<rparr>) \<and>
   state_inv (stored_state [legacy_record, toJSON done_task]) \<and>
   storage (stored_state [legacy_record, toJSON done_task])
     = Records [legacy_record, toJSON done_task] \<and>
   state_inv (loadTasks (env_at 5) (stored_state [legacy_record, toJSON done_task]))"
proof -
  let ?m = "milk\<lparr>task_id := 2\<rparr>"
  let ?s = "done_state\<lparr>tasks := [done_task, ?m]\<rparr>"
  let ?r = "stored_state [legacy_record, toJSON done_task]"
  have h: "state_inv ?s"
    by (simp add: state_inv_def task_inv_def done_task_def milk_def)
  have ok: "\<not> setItem_fails (env_at 5)" by (simp add: env_at_def)
  have ni: "storage ?s = NoItem" by (simp add: done_state_def)
  have f: "List.find (by_id 2) (tasks ?s) = Some ?m"
    by (simp add: by_id_def done_task_def)
  have nc: "\<not> completed ?m" by (simp add: milk_def)
  have g: "\<forall>t. List.find (by_id 2) (tasks ?s) = Some t \<longrightarrow> \<not> completed t \<or> timerSeconds t = 0"
    using f nc by simp
  note w = completed_invariant_preserved[OF h, of "env_at 5" _ _ 2 "env_at 9"]
  have a: "state_inv (snd (toggleTask (env_at 5) 2 ?s))" using w by blast
  have b: "state_inv (checkTimers (env_at 5) ?s)" using w by blast
  have c: "state_inv (loadTasks (env_at 9) (saveTasks (env_at 5) ?s))" using w ok by blast
  have d: "state_inv (loadTasks (env_at 5) ?s)" using w ni by blast
  have r: "state_inv (resetTimer (env_at 5) 2 ?s)" using w g by blast
  have "List.find (by_id 2) (tasks (resetTimer (env_at 5) 2 ?s)) =
          Some (?m\<lparr>timerRemainingSeconds := timerSeconds ?m, timerEnd := None,
                   incomplete := False\<rparr>)"
    using w f by blast
  then have q: "List.find (by_id 2) (tasks (resetTimer (env_at 5) 2 ?s)) =
          Some (milk\<lparr>task_id := 2, timerEnd := None\<rparr>)"
    by (simp add: milk_def)
  have h2: "state_inv ?r" by (simp add: state_inv_def stored_state_def)
  have st: "storage ?r = Records [legacy_record, toJSON done_task]"
    by (simp add: stored_state_def)
  have n: "\<forall>r \<in> set [legacy_record, toJSON done_task]. task_inv (normalize_task (now (env_at 5)) r)"
    by (simp add: task_inv_def normalize_task_def legacy_record_def toJSON_def done_task_def)
  have l: "state_inv (loadTasks (env_at 5) ?r)"
    using completed_invariant_preserved[OF h2, of "env_at 5"] st n by blast
  from h a b ok c ni d f nc r q h2 st l show ?thesis by blast
qed

section \<open>Reachable states\<close>

lemma ids_bounded_load: "ids_bounded s \<Longrightarrow> ids_bounded (loadTasks e s)"
proof (cases "storage s")
  case (Records rs)
  assume "ids_bounded s"
  have "r_id r \<le> Max (set (map r_id rs))" if "r \<in> set rs" for r
    using that by (intro Max_ge) auto
  then show ?thesis
    by (auto simp: loadTasks_Records[OF Records] ids_bounded_def normalize_task_def)
qed (auto simp: loadTasks_def ids_bounded_def)

lemma ids_bounded_found_update:
  assumes "ids_bounded s" and "\<And>t. task_id (f t) = task_id t"
  shows "\<forall>x \<in> set (case List.find P (tasks s) of None \<Rightarrow> tasks s
                     | Some t \<Rightarrow> update_first P (f t) (tasks s)). task_id x \<le> taskId s"
  using assms by (intro pointwise_found_update) (auto simp: ids_bounded_def)

lemma reachable_ids_bounded: "reachable s \<Longrightarrow> ids_bounded s"
proof (induction rule: reachable.induct)
  case (at_start st)
  show ?case by (simp add: ids_bounded_def init_state_def)
next
  case (after_load s e)
  then show ?case by (simp add: ids_bounded_load)
next
  case (after_add s e raw timerInput)
  then show ?case by (auto simp: ids_bounded_def addTask_tasks addTask_taskId)
next
  case (after_delete s e i)
  then show ?case by (auto simp: ids_bounded_def deleteTask_def)
next
  case (after_toggle s e i)
  then show ?case
    using ids_bounded_found_update[of s toggled "by_id i"]
    by (simp add: ids_bounded_def toggleTask_tasks)
next
  case (after_clear s e)
  then show ?case by (auto simp: ids_bounded_def clearCompleted_def)
next
  case (after_start s e i)
  then show ?case
    using ids_bounded_found_update[of s "start_step (now e)" "by_id i"]
    by (simp add: ids_bounded_def startTimer_tasks)
next
  case (after_pause s e i)
  then show ?case
    using ids_bounded_found_update[of s "pause_step (now e)" "by_id i"]
    by (simp add: ids_bounded_def pauseTimer_tasks)
next
  case (after_reset s e i)
  then show ?case
    using ids_bounded_found_update[of s reset_step "by_id i"]
    by (simp add: ids_bounded_def resetTimer_tasks)
next
  case (after_tick s e)
  then show ?case by (auto simp: ids_bounded_def checkTimers_tasks)
qed

lemma nonzero_steps:
  "timerEnd_nonzero t \<Longrightarrow> timerEnd_nonzero (start_step n t)"
  "timerEnd_nonzero t \<Longrightarrow> timerEnd_nonzero (pause_step n t)"
  "timerEnd_nonzero (reset_step t)"
  "timerEnd_nonzero t \<Longrightarrow> timerEnd_nonzero (toggled t)"
  "timerEnd_nonzero (expire t)"
  "timerEnd_nonzero (new_task e txt tin s)"
  "timerEnd_nonzero (normalize_task n r)"
  by (auto simp: timerEnd_nonzero_def start_step_def pause_step_def reset_step_def toggled_def
        expire_def new_task_def normalize_task_def minutes_to_seconds_def num_truthy_def Let_def
        split: option.splits if_splits)

lemma timers_nonzero_found_update:
  assumes "timers_nonzero s" and "\<And>t. timerEnd_nonzero t \<Longrightarrow> timerEnd_nonzero (f t)"
  shows "\<forall>x \<in> set (case List.find P (tasks s) of None \<Rightarrow> tasks s
                     | Some t \<Rightarrow> update_first P (f t) (tasks s)). timerEnd_nonzero x"
  using assms by (intro pointwise_found_update) (auto simp: timers_nonzero_def)

lemma reachable_timerEnd_nonzero: "reachable s \<Longrightarrow> timers_nonzero s"
proof (induction rule: reachable.induct)
  case (at_start st)
  show ?case by (simp add: timers_nonzero_def init_state_def)
next
  case (after_load s e)
  show ?case
  proof (cases "storage s")
    case (Records rs)
    then show ?thesis
      by (auto simp: loadTasks_Records timers_nonzero_def nonzero_steps)
  qed (use after_load in \<open>auto simp: loadTasks_def timers_nonzero_def\<close>)
next
  case (after_add s e raw timerInput)
  then show ?case by (auto simp: timers_nonzero_def addTask_tasks nonzero_steps)
next
  case (after_delete s e i)
  then show ?case by (auto simp: timers_nonzero_def deleteTask_def)
next
  case (after_toggle s e i)
  then show ?case
    using timers_nonzero_found_update[of s toggled "by_id i"]
    by (simp add: timers_nonzero_def toggleTask_tasks nonzero_steps)
next
  case (after_clear s e)
  then show ?case by (auto simp: timers_nonzero_def clearCompleted_def)
next
  case (after_start s e i)
  then show ?case
    using timers_nonzero_found_update[of s "start_step (now e)" "by_id i"]
    by (simp add: timers_nonzero_def startTimer_tasks nonzero_steps)
next
  case (after_pause s e i)
  then show ?case
    using timers_nonzero_found_update[of s "pause_step (now e)" "by_id i"]
    by (simp add: timers_nonzero_def pauseTimer_tasks nonzero_steps)
next
  case (after_reset s e i)
  then show ?case
    using timers_nonzero_found_update[of s reset_step "by_id i"]
    by (simp add: timers_nonzero_def resetTimer_tasks nonzero_steps)
next
  case (after_tick s e)
  then show ?case by (auto simp: timers_nonzero_def checkTimers_tasks nonzero_steps)
qed

section \<open>Ids within a session\<close>

lemma issued_le: "i \<in> set (issued a s) \<Longrightarrow> i \<le> taskId (perform a s)"
  by (cases a) (auto simp: addTask_tasks addTask_taskId split: if_splits)

lemma taskId_perform: "taskId s \<le> taskId (perform a s)"
  by (cases a) (simp_all add: addTask_taskId)

lemma session_bound:
  "(\<forall>i \<in> set (fst (session acts s)). i \<le> taskId (snd (session acts s))) \<and>
   taskId s \<le> taskId (snd (session acts s))"
proof (induction acts arbitrary: s)
  case Nil
  show ?case by simp
next
  case (Cons a acts)
  obtain ids s' where r: "session acts (perform a s) = (ids, s')"
    by (cases "session acts (perform a s)")
  have ih: "(\<forall>i \<in> set ids. i \<le> taskId s') \<and> taskId (perform a s) \<le> taskId s'"
    using Cons.IH[of "perform a s"] by (simp add: r)
  have "i \<le> taskId s'" if "i \<in> set (issued a s)" for i
    using issued_le[OF that] ih by linarith
  moreover have "taskId s \<le> taskId s'"
    using taskId_perform[of s a] ih by linarith
  ultimately show ?case using ih by (auto simp: r)
qed

lemma earlier_session:
  "session earlier_actions init_state =
     ([1, 2],
      \<lparr>tasks = [aaa_task], taskId = 2, storage = Records [toJSON aaa_task],
       ui = [ClearError ''taskInput'', ClearError ''taskInput'']\<rparr>)"
proof -
  let ?s1 = "\<lparr>tasks = [aaa_task], taskId = 1, storage = Records [toJSON aaa_task],
              ui = [ClearError ''taskInput'']\<rparr>"
  let ?b = "aaa_task\<lparr>task_id := 2, task_text := ''bbb'', createdAt := Some 2000\<rparr>"
  let ?s2 = "\<lparr>tasks = [aaa_task, ?b], taskId = 2, storage = Records [toJSON aaa_task, toJSON ?b],
              ui = [ClearError ''taskInput'', ClearError ''taskInput'']\<rparr>"
  have f1: "first_failing_rule ''aaa'' (tasks init_state) = None" by code_simp
  have n1: "new_task (env_at 1000) ''aaa'' None init_state = aaa_task" by code_simp
  have a1: "addTask (env_at 1000) ''aaa'' None init_state = (True, ?s1)"
    unfolding addTask_accepted[OF f1] n1
    by (simp add: init_state_def clearFormError_def saveTasks_def env_at_def)
  have f2: "first_failing_rule ''bbb'' (tasks ?s1) = None" by code_simp
  have n2: "new_task (env_at 2000) ''bbb'' None ?s1 = ?b" by code_simp
  have a2: "addTask (env_at 2000) ''bbb'' None ?s1 = (True, ?s2)"
    unfolding addTask_accepted[OF f2] n2
    by (simp add: clearFormError_def saveTasks_def env_at_def)
  have d: "deleteTask (env_at 3000) 2 ?s2 =
             \<lparr>tasks = [aaa_task], taskId = 2, storage = Records [toJSON aaa_task],
              ui = [ClearError ''taskInput'', ClearError ''taskInput'']\<rparr>"
    by (simp add: deleteTask_def saveTasks_def env_at_def aaa_task_def)
  have i1: "task_id aaa_task = 1" by (simp add: aaa_task_def)
  show ?thesis
    by (simp add: earlier_actions_def a1 a2 d) (simp add: init_state_def i1)
qed

lemma reopened_page_eq:
  "reopened_page =
     \<lparr>tasks = [aaa_task], taskId = 1, storage = Records [toJSON aaa_task], ui = []\<rparr>"
proof -
  have es: "storage earlier_state = Records [toJSON aaa_task]"
    by (simp add: earlier_state_def earlier_session)
  have st: "storage (init_state\<lparr>storage := storage earlier_state\<rparr>) = Records [toJSON aaa_task]"
    by (simp add: es)
  have n: "normalize_task (now (env_at 4000)) (toJSON aaa_task) = aaa_task"
    by (simp add: normalize_task_def toJSON_def aaa_task_def num_truthy_def)
  have i: "r_id (toJSON aaa_task) = 1" by (simp add: toJSON_def aaa_task_def)
  show ?thesis
    unfolding reopened_page_def loadTasks_Records[OF st]
    by (simp add: n i es init_state_def)
qed

text \<open>
  Claim C1, as stated, fails in one part: the new id is not above every id assigned before.
  \<open>loadTasks\<close> restarts the counter from the greatest stored id, and deleting a task leaves no
  trace of its id. The session \<open>earlier_actions\<close> adds two tasks, which get the ids 1 and 2, and
  deletes the second; the page is then opened again on the saved store, and the next task
  added gets the id 2 a second time.
\<close>

theorem addTask_reissued_id_counterexample:
  "fst (session earlier_actions init_state) = [1, 2] \<and>
   fst (addTask (env_at 5000) ''ccc'' None reopened_page) = True \<and>
   map task_id (tasks (snd (addTask (env_at 5000) ''ccc'' None reopened_page))) = [1, 2]"
proof -
  have f: "first_failing_rule ''ccc'' (tasks reopened_page) = None"
    unfolding reopened_page_eq by code_simp
  have "addTask (env_at 5000) ''ccc'' None reopened_page =
     (True, clearFormError ''taskInput''
        (saveTasks (env_at 5000)
           (reopened_page\<lparr>taskId := taskId reopened_page + 1,
              tasks := tasks reopened_page @ [new_task (env_at 5000) ''ccc'' None reopened_page]\<rparr>)))"
    by (rule addTask_accepted[OF f])
  then show ?thesis
    by (simp add: earlier_session clearFormError_def) (simp add: reopened_page_eq aaa_task_def)
qed

text \<open>
  Claim C1, amended. When the trimmed text has between 3 and 200 characters and is no
  case-insensitive duplicate, and the collection holds fewer than 100 tasks, \<open>addTask\<close>
  returns \<open>true\<close>. It appends \<open>new_task\<close> at the end: the task with id \<open>taskId + 1\<close>, the
  trimmed text, \<open>completed\<close> and \<open>incomplete\<close> false, \<open>timerSeconds\<close> the minutes times 60 when
  the minutes are positive and 0 otherwise, \<open>timerRemainingSeconds\<close> equal to \<open>timerSeconds\<close>,
  and \<open>timerEnd\<close> the clock plus \<open>timerSeconds * 1000\<close> when \<open>timerSeconds\<close> is positive and
  \<open>null\<close> otherwise. \<open>saveTasks\<close> is called on the whole collection, and the store holds it when
  the write succeeds. The new id is above the id of every task of the collection when no task
  carries an id above the counter (which holds in every reachable state, lemma
  \<open>reachable_ids_bounded\<close>), and above every id assigned since the collection was last loaded:
  for every sequence of operations without a load that leads to the present state, above
  every id the sequence assigned, deleted tasks included, and above the ids of the tasks it
  started from.
\<close>

theorem addTask_success:
  assumes "3 \<le> length (trim txt)" and "length (trim txt) \<le> 200"
    and "\<not> is_duplicate (trim txt) (tasks s)" and "length (tasks s) < 100"
  shows "fst (addTask e txt timerMinutes s) = True \<and>
         tasks (snd (addTask e txt timerMinutes s)) = tasks s @ [new_task e txt timerMinutes s] \<and>
         taskId (snd (addTask e txt timerMinutes s)) = taskId s + 1 \<and>
         task_id (new_task e txt timerMinutes s) = taskId s + 1 \<and>
         (ids_bounded s \<longrightarrow>
            (\<forall>t \<in> set (tasks s). task_id t < task_id (new_task e txt timerMinutes s))) \<and>
         snd (addTask e txt timerMinutes s) =
           clearFormError ''taskInput''
             (saveTasks e
                (s\<lparr>taskId := taskId s + 1,
                   tasks := tasks s @ [new_task e txt timerMinutes s]\<rparr>)) \<and>
         (\<not> setItem_fails e \<longrightarrow>
            storage (snd (addTask e txt timerMinutes s)) =
              Records (map toJSON (tasks s @ [new_task e txt timerMinutes s]))) \<and>
         (\<forall>s0 acts. snd (session acts s0) = s \<longrightarrow>
            (\<forall>i \<in> set (fst (session acts s0)). i < task_id (new_task e txt timerMinutes s)) \<and>
            (ids_bounded s0 \<longrightarrow>
               (\<forall>t \<in> set (tasks s0). task_id t < task_id (new_task e txt timerMinutes s))))"
proof -
  have run: "addTask e txt timerMinutes s =
     (True, clearFormError ''taskInput''
        (saveTasks e (s\<lparr>taskId := taskId s + 1,
                         tasks := tasks s @ [new_task e txt timerMinutes s]\<rparr>)))"
    by (rule addTask_accepted[OF valid_text_accepted[OF assms]])
  have cur: "\<forall>t \<in> set (tasks s). task_id t < task_id (new_task e txt timerMinutes s)"
    if "ids_bounded s"
    using that by (auto simp: ids_bounded_def)
  have past: "(\<forall>i \<in> set (fst (session acts s0)). i < task_id (new_task e txt timerMinutes s)) \<and>
            (ids_bounded s0 \<longrightarrow>
               (\<forall>t \<in> set (tasks s0). task_id t < task_id (new_task e txt timerMinutes s)))"
    if "snd (session acts s0) = s" for s0 acts
    using session_bound[of acts s0] that by (auto simp: ids_bounded_def)
  have main: "fst (addTask e txt timerMinutes s) = True \<and>
         tasks (snd (addTask e txt timerMinutes s)) = tasks s @ [new_task e txt timerMinutes s] \<and>
         taskId (snd (addTask e txt timerMinutes s)) = taskId s + 1 \<and>
         task_id (new_task e txt timerMinutes s) = taskId s + 1 \<and>
         snd (addTask e txt timerMinutes s) =
           clearFormError ''taskInput''
             (saveTasks e
                (s\<lparr>taskId := taskId s + 1,
                   tasks := tasks s @ [new_task e txt timerMinutes s]\<rparr>)) \<and>
         (\<not> setItem_fails e \<longrightarrow>
            storage (snd (addTask e txt timerMinutes s)) =
              Records (map toJSON (tasks s @ [new_task e txt timerMinutes s])))"
    unfolding run by (simp add: clearFormError_def saveTasks_storage)
  from main cur past show ?thesis by blast
qed

theorem addTask_success_witness:
  "3 \<le> length (trim ''  Buy milk '') \<and> length (trim ''  Buy milk '') \<le> 200 \<and>
   \<not> is_duplicate (trim ''  Buy milk '') (tasks init_state) \<and> length (tasks init_state) < 100 \<and>
   addTask (env_at 1000) ''  Buy milk '' (Some 1) init_state =
     (True, \<lparr>tasks = [milk], taskId = 1, storage = Records [toJSON milk],
             ui = [ClearError ''taskInput'']\<rparr>) \<and>
   3 \<le> length (trim ''ccc'') \<and> length (trim ''ccc'') \<le> 200 \<and>
   \<not> is_duplicate (trim ''ccc'') (tasks earlier_state) \<and> length (tasks earlier_state) < 100 \<and>
   snd (session earlier_actions init_state) = earlier_state \<and>
   fst (session earlier_actions init_state) = [1, 2] \<and>
   map task_id (tasks earlier_state) = [1] \<and>
   map task_id (tasks (snd (addTask (env_at 5000) ''ccc'' None earlier_state))) = [1, 3] \<and>
   list_all (\<lambda>i. i < task_id (new_task (env_at 5000) ''ccc'' None earlier_state)) [1, 2]"
proof -
  have h1: "3 \<le> length (trim ''  Buy milk '')" by code_simp
  have h2: "length (trim ''  Buy milk '') \<le> 200" by code_simp
  have h3: "\<not> is_duplicate (trim ''  Buy milk '') (tasks init_state)" by code_simp
  have h4: "length (tasks init_state) < 100" by code_simp
  have nt: "new_task (env_at 1000) ''  Buy milk '' (Some 1) init_state = milk" by code_simp
  note w = addTask_success[OF h1 h2 h3 h4, of "env_at 1000" "Some 1", unfolded nt]
  have f: "fst (addTask (env_at 1000) ''  Buy milk '' (Some 1) init_state) = True"
    using w by blast
  have g: "snd (addTask (env_at 1000) ''  Buy milk '' (Some 1) init_state) =
           clearFormError ''taskInput''
             (saveTasks (env_at 1000)
                (init_state\<lparr>taskId := taskId init_state + 1,
                            tasks := tasks init_state @ [milk]\<rparr>))"
    using w by blast
  have a: "addTask (env_at 1000) ''  Buy milk '' (Some 1) init_state =
     (True, \<lparr>tasks = [milk], taskId = 1, storage = Records [toJSON milk],
             ui = [ClearError ''taskInput'']\<rparr>)"
    using f g
    by (cases "addTask (env_at 1000) ''  Buy milk '' (Some 1) init_state")
       (simp add: init_state_def clearFormError_def saveTasks_def env_at_def)
  have es: "earlier_state =
     \<lparr>tasks = [aaa_task], taskId = 2, storage = Records [toJSON aaa_task],
       ui = [ClearError ''taskInput'', ClearError ''taskInput'']\<rparr>"
    by (simp add: earlier_state_def earlier_session)
  have k1: "3 \<le> length (trim ''ccc'')" by code_simp
  have k2: "length (trim ''ccc'') \<le> 200" by code_simp
  have k3: "\<not> is_duplicate (trim ''ccc'') (tasks earlier_state)"
    unfolding es by code_simp
  have k4: "length (tasks earlier_state) < 100" by (simp add: es)
  have k5: "snd (session earlier_actions init_state) = earlier_state"
    by (simp add: earlier_state_def)
  have k6: "fst (session earlier_actions init_state) = [1, 2]"
    by (simp add: earlier_session)
  have ids: "map task_id (tasks earlier_state) = [1]" by (simp add: es aaa_task_def)
  note v = addTask_success[OF k1 k2 k3 k4, of "env_at 5000" None]
  have "tasks (snd (addTask (env_at 5000) ''ccc'' None earlier_state)) =
          tasks earlier_state @ [new_task (env_at 5000) ''ccc'' None earlier_state]"
    using v by blast
  then have b: "map task_id (tasks (snd (addTask (env_at 5000) ''ccc'' None earlier_state))) = [1, 3]"
    by (simp add: ids) (simp add: es)
  have "\<forall>i \<in> set (fst (session earlier_actions init_state)).
          i < task_id (new_task (env_at 5000) ''ccc'' None earlier_state)"
    using v k5 by blast
  then have c: "list_all (\<lambda>i. i < task_id (new_task (env_at 5000) ''ccc'' None earlier_state)) [1, 2]"
    unfolding k6 by (simp only: list_all_iff)
  from h1 h2 h3 h4 a k1 k2 k3 k4 k5 k6 ids b c show ?thesis by blast
qed

section \<open>The remaining time never exceeds the duration\<close>

lemma bounded_mono: "bounded_timer S n t \<Longrightarrow> n \<le> n' \<Longrightarrow> bounded_timer S n' t"
  by (auto simp: bounded_timer_def split: option.splits)

lemma round_div_bound: "d \<le> S * 1000 \<Longrightarrow> round_div_1000 d \<le> S"
  unfolding round_div_1000_def by linarith

lemma bounded_start: "bounded_timer S n t \<Longrightarrow> bounded_timer S n (start_step n t)"
  by (auto simp: bounded_timer_def start_step_def num_truthy_def Let_def split: option.splits)

lemma bounded_pause: "bounded_timer S n t \<Longrightarrow> bounded_timer S n (pause_step n t)"
  by (auto simp: bounded_timer_def pause_step_def num_truthy_def round_div_bound
           split: option.splits)

lemma apply_timer_op_bounded:
  assumes "k < length (tasks s)" and "bounded_timer S n (tasks s ! k)" and "n \<le> op_time x"
  shows "k < length (tasks (apply_timer_op x s)) \<and>
         bounded_timer S (op_time x) (tasks (apply_timer_op x s) ! k)"
proof -
  obtain opr i e where x: "x = (opr, i, e)" by (cases x)
  have b: "bounded_timer S (now e) (tasks s ! k)"
    using assms(2,3) bounded_mono by (simp add: x op_time_def)
  show ?thesis
  proof (cases opr)
    case Start
    then show ?thesis
      using assms(1) nth_found_update[OF assms(1), of "bounded_timer S (now e)", OF b bounded_start]
      by (simp add: x op_time_def startTimer_tasks)
  next
    case Pause
    then show ?thesis
      using assms(1) nth_found_update[OF assms(1), of "bounded_timer S (now e)", OF b bounded_pause]
      by (simp add: x op_time_def pauseTimer_tasks)
  qed
qed

lemma run_timer_ops_bounded:
  "sorted (map op_time ops) \<Longrightarrow> \<forall>x \<in> set ops. n \<le> op_time x \<Longrightarrow>
   k < length (tasks s) \<Longrightarrow> bounded_timer S n (tasks s ! k) \<Longrightarrow>
   k < length (tasks (run_timer_ops ops s)) \<and>
   (\<exists>n'. bounded_timer S n' (tasks (run_timer_ops ops s) ! k))"
proof (induction ops arbitrary: s n)
  case Nil
  then show ?case by (auto simp: run_timer_ops_def)
next
  case (Cons x xs)
  have step: "k < length (tasks (apply_timer_op x s)) \<and>
              bounded_timer S (op_time x) (tasks (apply_timer_op x s) ! k)"
    using Cons.prems by (intro apply_timer_op_bounded) auto
  have "k < length (tasks (run_timer_ops xs (apply_timer_op x s))) \<and>
        (\<exists>n'. bounded_timer S n' (tasks (run_timer_ops xs (apply_timer_op x s)) ! k))"
    using Cons.prems step by (intro Cons.IH[of "op_time x"]) auto
  then show ?case by (simp add: run_timer_ops_def)
qed

lemma bounded_new_task:
  "bounded_timer (timerSeconds (new_task e txt tin s)) (now e) (new_task e txt tin s)"
  by (auto simp: bounded_timer_def new_task_def minutes_to_seconds_def Let_def)

text \<open>
  Claim C6. For a task created by \<open>addTask\<close> and every sequence of \<open>startTimer\<close> and
  \<open>pauseTimer\<close> calls (on any ids) at clock readings that do not decrease from the creation
  on, after every prefix of the sequence the task still has its original \<open>timerSeconds\<close> and
  its \<open>timerRemainingSeconds\<close> does not exceed it. The example pauses the one-minute task at
  31 s, starts it at 40 s and pauses it at 50 s: 30 seconds remain, then 20.
\<close>

theorem timer_remaining_bounded:
  assumes "fst (addTask e0 txt timerInput s)"
    and "sorted (map op_time ops)"
    and "\<forall>x \<in> set ops. now e0 \<le> op_time x"
  shows "tasks (snd (addTask e0 txt timerInput s)) ! length (tasks s) = new_task e0 txt timerInput s \<and>
         (\<forall>j. timerSeconds (tasks (run_timer_ops (take j ops) (snd (addTask e0 txt timerInput s)))
                              ! length (tasks s))
                = timerSeconds (new_task e0 txt timerInput s) \<and>
              timerRemainingSeconds
                (tasks (run_timer_ops (take j ops) (snd (addTask e0 txt timerInput s)))
                   ! length (tasks s))
                \<le> timerSeconds (new_task e0 txt timerInput s))"
proof -
  let ?s1 = "snd (addTask e0 txt timerInput s)" and ?k = "length (tasks s)"
  let ?S = "timerSeconds (new_task e0 txt timerInput s)"
  have acc: "first_failing_rule txt (tasks s) = None" using assms(1) by (simp add: added_iff)
  have ts: "tasks ?s1 = tasks s @ [new_task e0 txt timerInput s]"
    using acc by (simp add: addTask_tasks)
  have k: "?k < length (tasks ?s1)" and at: "tasks ?s1 ! ?k = new_task e0 txt timerInput s"
    by (simp_all add: ts)
  have b0: "bounded_timer ?S (now e0) (tasks ?s1 ! ?k)"
    unfolding at by (rule bounded_new_task)
  have "\<exists>n'. bounded_timer ?S n' (tasks (run_timer_ops (take j ops) ?s1) ! ?k)" for j
  proof -
    have "sorted (map op_time (take j ops))"
      using assms(2) by (simp add: take_map[symmetric] sorted_wrt_take)
    moreover have "\<forall>x \<in> set (take j ops). now e0 \<le> op_time x"
      using assms(3) by (meson in_set_takeD)
    ultimately show ?thesis
      using run_timer_ops_bounded[OF _ _ k b0] by blast
  qed
  then show ?thesis using at by (auto simp: bounded_timer_def)
qed

theorem timer_remaining_bounded_witness:
  "fst (addTask (env_at 1000) ''  Buy milk '' (Some 1) init_state) \<and>
   sorted (map op_time
     [(Pause, 1, env_at 31000), (Start, 1, env_at 40000), (Pause, 1, env_at 50000)]) \<and>
   list_all (\<lambda>x. now (env_at 1000) \<le> op_time x)
     [(Pause, 1, env_at 31000), (Start, 1, env_at 40000), (Pause, 1, env_at 50000)] \<and>
   timerRemainingSeconds
     (tasks (run_timer_ops
               [(Pause, 1, env_at 31000), (Start, 1, env_at 40000), (Pause, 1, env_at 50000)]
               (snd (addTask (env_at 1000) ''  Buy milk '' (Some 1) init_state)))
        ! length (tasks init_state)) \<le> 60 \<and>
   map timerRemainingSeconds
     (tasks (run_timer_ops [(Pause, 1, env_at 31000)]
               (snd (addTask (env_at 1000) ''  Buy milk '' (Some 1) init_state)))) = [30] \<and>
   map timerRemainingSeconds
     (tasks (run_timer_ops
               [(Pause, 1, env_at 31000), (Start, 1, env_at 40000), (Pause, 1, env_at 50000)]
               (snd (addTask (env_at 1000) ''  Buy milk '' (Some 1) init_state)))) = [20]"
proof -
  let ?ops = "[(Pause, 1, env_at 31000), (Start, 1, env_at 40000), (Pause, 1, env_at 50000)]"
  have h1: "fst (addTask (env_at 1000) ''  Buy milk '' (Some 1) init_state)"
    by (simp add: add_milk)
  have h2: "sorted (map op_time ?ops)" by (simp add: op_time_def env_at_def)
  have h3: "\<forall>x \<in> set ?ops. now (env_at 1000) \<le> op_time x"
    by (simp add: op_time_def env_at_def)
  have "new_task (env_at 1000) ''  Buy milk '' (Some 1) init_state = milk" by code_simp
  then have nt: "timerSeconds (new_task (env_at 1000) ''  Buy milk '' (Some 1) init_state) = 60"
    by (simp add: milk_def)
  have "timerRemainingSeconds
     (tasks (run_timer_ops (take 3 ?ops)
               (snd (addTask (env_at 1000) ''  Buy milk '' (Some 1) init_state)))
        ! length (tasks init_state)) \<le> 60"
    using timer_remaining_bounded[OF h1 h2 h3] unfolding nt by blast
  then have a: "timerRemainingSeconds
     (tasks (run_timer_ops ?ops
               (snd (addTask (env_at 1000) ''  Buy milk '' (Some 1) init_state)))
        ! length (tasks init_state)) \<le> 60"
    by simp
  have b: "map timerRemainingSeconds
     (tasks (run_timer_ops [(Pause, 1, env_at 31000)]
               (snd (addTask (env_at 1000) ''  Buy milk '' (Some 1) init_state)))) = [30]"
    unfolding add_milk
    by (simp add: run_timer_ops_def pauseTimer_tasks by_id_def milk_def
          pause_step_def num_truthy_def round_div_1000_def env_at_def)
  have c: "map timerRemainingSeconds
     (tasks (run_timer_ops ?ops
               (snd (addTask (env_at 1000) ''  Buy milk '' (Some 1) init_state)))) = [20]"
    unfolding add_milk
    by (simp add: run_timer_ops_def startTimer_tasks pauseTimer_tasks by_id_def milk_def
          start_step_def pause_step_def num_truthy_def round_div_1000_def env_at_def Let_def)
  have h3': "list_all (\<lambda>x. now (env_at 1000) \<le> op_time x) ?ops"
    using h3 by (simp only: list_all_iff)
  from h1 h2 h3' a b c show ?thesis by blast
qed

end
